theory Spec2Isabelle
  imports Main
begin

section \<open>Data model (types.ts)\<close>

text \<open>
  The two string-literal unions of \<^verbatim>\<open>types.ts\<close> share the literals
  \<^verbatim>\<open>'processing'\<close>, \<^verbatim>\<open>'completed'\<close> and \<^verbatim>\<open>'error'\<close>; the constructors
  of the per-page union carry the prefix \<open>Page\<close> to keep them apart.
\<close>

datatype PageStatus = PagePending | PageProcessing | PageCompleted | PageError

datatype RunStatus = Idle | Loading | Processing | Completed | Error

text \<open>\<^verbatim>\<open>interface PageExtraction\<close>; the optional \<^verbatim>\<open>imageUrl\<close> is an option.\<close>

record PageExtraction =
  pageNumber :: nat
  content :: string
  status :: PageStatus
  imageUrl :: "string option"

text \<open>\<^verbatim>\<open>interface ProcessingState\<close>. Its \<^verbatim>\<open>status\<close> field hides the one of
  \<open>PageExtraction\<close>, which is written \<open>PageExtraction.status\<close> below.\<close>

record ProcessingState =
  status :: RunStatus
  totalPages :: nat
  currentPage :: nat
  results :: "PageExtraction list"
  errorMessage :: "string option"

text \<open>A thrown JavaScript value: an \<^verbatim>\<open>Error\<close> object with its message.\<close>

datatype exn = Exn string

section \<open>The collaborators of a run\<close>

text \<open>
  What the awaited calls of one run of \<^verbatim>\<open>processFile\<close> answer for the uploaded file:
  the three functions of \<^verbatim>\<open>pdfProcessor.ts\<close> (which resolve or reject),
  \<^verbatim>\<open>process.env.API_KEY\<close>, and the answer of \<^verbatim>\<open>ai.models.generateContent\<close> to the
  call made for page \<open>i\<close> with a given image: a rejection, or a response whose
  \<^verbatim>\<open>text\<close> is a string or \<^verbatim>\<open>undefined\<close>.
\<close>

record Env =
  getPageCount :: "exn + nat"
  getPageAsDataUrl :: "nat \<Rightarrow> exn + string"
  getPageAsImage :: "nat \<Rightarrow> exn + string"
  API_KEY :: "string option"
  generateContent :: "nat \<Rightarrow> string \<Rightarrow> exn + string option"

section \<open>geminiService.ts\<close>

text \<open>JavaScript's \<^verbatim>\<open>x || d\<close> on an optional string: \<^verbatim>\<open>undefined\<close> and the empty
  string are falsy.\<close>

fun or_default :: "string option \<Rightarrow> string \<Rightarrow> string" where
  "or_default None d = d"
| "or_default (Some t) d = (if t = [] then d else t)"

text \<open>\<^verbatim>\<open>extractContentFromPage\<close>, for the API key and the backend given.\<close>

definition extractContentFromPage ::
  "string option \<Rightarrow> (string \<Rightarrow> exn + string option) \<Rightarrow> string \<Rightarrow> exn + string" where
  "extractContentFromPage apiKey generate base64Image =
     (if apiKey = None \<or> apiKey = Some [] then Inl (Exn ''API Key is missing'')
      else (case generate base64Image of
              Inl e \<Rightarrow> Inl e
            | Inr text \<Rightarrow> Inr (or_default text ''No content extracted.'')))"

section \<open>App.tsx: the state updates\<close>

text \<open>
  Every \<^verbatim>\<open>setState\<close> call of the component, as a value. React applies the functional
  updaters to the state current at that moment, in the order they were issued.
\<close>

datatype Update =
    SetLoading                 \<comment> \<open>line 399\<close>
  | Allocate nat               \<comment> \<open>lines 402-412\<close>
  | SetPreview nat string      \<comment> \<open>lines 417-425\<close>
  | SetExtracted nat string    \<comment> \<open>lines 431-438\<close>
  | SetPageError nat           \<comment> \<open>lines 440-447\<close>
  | SetCompleted               \<comment> \<open>line 451\<close>
  | SetFatal                   \<comment> \<open>lines 453-457\<close>
  | Reset                      \<comment> \<open>lines 364-369\<close>

definition initial_state :: ProcessingState where
  "initial_state =
     \<lparr>status = Idle, totalPages = 0, currentPage = 0, results = [], errorMessage = None\<rparr>"

definition pendingPage :: "nat \<Rightarrow> PageExtraction" where
  "pendingPage n = \<lparr>pageNumber = n, content = [], status = PagePending, imageUrl = None\<rparr>"

fun apply_update :: "Update \<Rightarrow> ProcessingState \<Rightarrow> ProcessingState" where
  "apply_update SetLoading prev = prev\<lparr>status := Loading, errorMessage := None\<rparr>"
| "apply_update (Allocate count) prev =
     prev\<lparr>status := Processing, totalPages := count, currentPage := 1,
          results := map (\<lambda>i. pendingPage (i + 1)) [0..<count]\<rparr>"
| "apply_update (SetPreview i pagePreview) prev =
     prev\<lparr>currentPage := i,
          results := map (\<lambda>r. if pageNumber r = i
                                then r\<lparr>PageExtraction.status := PageProcessing,
                                       imageUrl := Some pagePreview\<rparr>
                                else r) (results prev)\<rparr>"
| "apply_update (SetExtracted i text) prev =
     prev\<lparr>results := map (\<lambda>r. if pageNumber r = i
                                then r\<lparr>content := text,
                                       PageExtraction.status := PageCompleted\<rparr>
                                else r) (results prev)\<rparr>"
| "apply_update (SetPageError i) prev =
     prev\<lparr>results := map (\<lambda>r. if pageNumber r = i
                                then r\<lparr>content := ''Failed to extract content.'',
                                       PageExtraction.status := PageError\<rparr>
                                else r) (results prev)\<rparr>"
| "apply_update SetCompleted prev = prev\<lparr>status := Completed\<rparr>"
| "apply_update SetFatal prev =
     prev\<lparr>status := Error,
          errorMessage := Some ''Failed to process file. Make sure it is a valid PDF.''\<rparr>"
| "apply_update Reset prev = initial_state"

text \<open>
  The states an observer sees: one after each update. (Where React renders two
  updates of the same task together, the states it shows are a subsequence of
  these.)
\<close>

fun published :: "ProcessingState \<Rightarrow> Update list \<Rightarrow> ProcessingState list" where
  "published s [] = []"
| "published s (u # us) = apply_update u s # published (apply_update u s) us"

definition final_state :: "ProcessingState \<Rightarrow> Update list \<Rightarrow> ProcessingState" where
  "final_state s us = last (s # published s us)"

section \<open>App.tsx: processFile\<close>

text \<open>The body of the inner \<^verbatim>\<open>try\<close> (lines 428-429): both awaits are inside it.\<close>

definition extractPage :: "Env \<Rightarrow> nat \<Rightarrow> exn + string" where
  "extractPage env i =
     (case getPageAsImage env i of
        Inl e \<Rightarrow> Inl e
      | Inr base64 \<Rightarrow> extractContentFromPage (API_KEY env) (generateContent env i) base64)"

text \<open>The update the inner \<^verbatim>\<open>try\<close>/\<^verbatim>\<open>catch\<close> issues for page \<open>i\<close>.\<close>

definition extractionUpdate :: "Env \<Rightarrow> nat \<Rightarrow> Update" where
  "extractionUpdate env i =
     (case extractPage env i of
        Inr text \<Rightarrow> SetExtracted i text
      | Inl err \<Rightarrow> SetPageError i)"

text \<open>
  The loop \<^verbatim>\<open>for (let i = 1; i <= count; i++)\<close> from \<open>i\<close> on: the updates it
  issues, and the exception that left it, if any. The preview is awaited outside
  the inner \<^verbatim>\<open>try\<close>.
\<close>

function loop :: "Env \<Rightarrow> nat \<Rightarrow> nat \<Rightarrow> Update list \<times> exn option" where
  "loop env count i =
     (if i \<le> count then
        (case getPageAsDataUrl env i of
           Inl e \<Rightarrow> ([], Some e)
         | Inr pagePreview \<Rightarrow>
             (case loop env count (i + 1) of
                (us, r) \<Rightarrow> (SetPreview i pagePreview # extractionUpdate env i # us, r)))
      else ([], None))"
  by pat_completeness auto
termination
  by (relation "measure (\<lambda>(env, count, i). Suc count - i)") auto

text \<open>\<^verbatim>\<open>processFile\<close>: the updates of one run, in the order they are issued.\<close>

definition processFile :: "Env \<Rightarrow> Update list" where
  "processFile env =
     SetLoading #
     (case getPageCount env of
        Inl e \<Rightarrow> [SetFatal]
      | Inr count \<Rightarrow>
          Allocate count #
          (case loop env count 1 of
             (us, None) \<Rightarrow> us @ [SetCompleted]
           | (us, Some e) \<Rightarrow> us @ [SetFatal]))"

section \<open>App.tsx: combinedContent\<close>

text \<open>\<^verbatim>\<open>Array.prototype.join\<close>.\<close>

fun join :: "string \<Rightarrow> string list \<Rightarrow> string" where
  "join sep [] = []"
| "join sep [x] = x"
| "join sep (x # y # ys) = x @ sep @ join sep (y # ys)"

definition combinedContent :: "ProcessingState \<Rightarrow> string" where
  "combinedContent s =
     join [CHR 0x0A, CHR 0x0A]
       (map content (filter (\<lambda>r. PageExtraction.status r = PageCompleted) (results s)))"

section \<open>evaluatorService.ts\<close>

text \<open>
  A JavaScript value as \<^verbatim>\<open>JSON.parse\<close> builds it. A string is its sequence of
  UTF-16 code units; a number is kept as the numeral that was read (its IEEE
  value is a function of it); an object keeps its members in source order.
\<close>

datatype json =
    JNull
  | JBool bool
  | JNumber string
  | JString "nat list"
  | JArray "json list"
  | JObject "(nat list \<times> json) list"

datatype token =
    TLBrace | TRBrace | TLBracket | TRBracket | TColon | TComma
  | TString "nat list" | TNumber string | TTrue | TFalse | TNull

definition is_ws :: "char \<Rightarrow> bool" where
  "is_ws c \<longleftrightarrow> c = CHR 0x20 \<or> c = CHR 0x09 \<or> c = CHR 0x0A \<or> c = CHR 0x0D"

definition is_digit :: "char \<Rightarrow> bool" where
  "is_digit c \<longleftrightarrow> (48 :: nat) \<le> of_char c \<and> of_char c \<le> (57 :: nat)"

definition hex_value :: "char \<Rightarrow> nat option" where
  "hex_value c =
     (let n = (of_char c :: nat) in
      if 48 \<le> n \<and> n \<le> 57 then Some (n - 48)
      else if 97 \<le> n \<and> n \<le> 102 then Some (n - 87)
      else if 65 \<le> n \<and> n \<le> 70 then Some (n - 55)
      else None)"

definition escape_value :: "char \<Rightarrow> nat option" where
  "escape_value c =
     (if c = CHR 0x22 then Some 0x22
      else if c = CHR 0x5C then Some 0x5C
      else if c = CHR ''/'' then Some 0x2F
      else if c = CHR ''b'' then Some 0x08
      else if c = CHR ''f'' then Some 0x0C
      else if c = CHR ''n'' then Some 0x0A
      else if c = CHR ''r'' then Some 0x0D
      else if c = CHR ''t'' then Some 0x09
      else None)"

text \<open>The characters of a string literal after its opening quote: the code units
  read so far (latest first), then the decoded string and the rest of the text.\<close>

fun lex_string :: "string \<Rightarrow> nat list \<Rightarrow> (nat list \<times> string) option" where
  "lex_string [] acc = None"
| "lex_string (c # cs) acc =
     (if c = CHR 0x22 then Some (rev acc, cs)
      else if c = CHR 0x5C then
        (case cs of
           [] \<Rightarrow> None
         | e # cs' \<Rightarrow>
            (if e = CHR ''u'' then
               (case cs' of
                  h1 # h2 # h3 # h4 # cs'' \<Rightarrow>
                    (case (hex_value h1, hex_value h2, hex_value h3, hex_value h4) of
                       (Some a, Some b, Some c', Some d) \<Rightarrow>
                         lex_string cs'' ((((a * 16 + b) * 16 + c') * 16 + d) # acc)
                     | _ \<Rightarrow> None)
                | _ \<Rightarrow> None)
             else (case escape_value e of
                     None \<Rightarrow> None
                   | Some v \<Rightarrow> lex_string cs' (v # acc))))
      else if of_char c < (0x20 :: nat) then None
      else lex_string cs (of_char c # acc))"

text \<open>The grammar of a JSON number, on the whole numeral.\<close>

definition exponent_ok :: "string \<Rightarrow> bool" where
  "exponent_ok r =
     (case r of
        [] \<Rightarrow> True
      | e # r' \<Rightarrow>
          (e = CHR ''e'' \<or> e = CHR ''E'') \<and>
          (let r'' = (case r' of
                        [] \<Rightarrow> []
                      | s # t \<Rightarrow> if s = CHR ''+'' \<or> s = CHR ''-'' then t else r')
           in r'' \<noteq> [] \<and> list_all is_digit r''))"

definition fraction_ok :: "string \<Rightarrow> bool" where
  "fraction_ok r =
     (case r of
        [] \<Rightarrow> True
      | p # r' \<Rightarrow>
          if p = CHR ''.'' then takeWhile is_digit r' \<noteq> [] \<and> exponent_ok (dropWhile is_digit r')
          else exponent_ok r)"

definition number_ok :: "string \<Rightarrow> bool" where
  "number_ok s =
     (case (case s of [] \<Rightarrow> [] | m # t \<Rightarrow> if m = CHR ''-'' then t else s) of
        [] \<Rightarrow> False
      | d # r \<Rightarrow>
          if d = CHR ''0'' then fraction_ok r
          else is_digit d \<and> fraction_ok (dropWhile is_digit r))"

definition is_number_char :: "char \<Rightarrow> bool" where
  "is_number_char c \<longleftrightarrow>
     is_digit c \<or> c = CHR ''-'' \<or> c = CHR ''+'' \<or> c = CHR ''.'' \<or> c = CHR ''e'' \<or> c = CHR ''E''"

text \<open>A string literal is consumed: what follows it is shorter than what was given.\<close>

lemma lex_string_shorter:
  "lex_string cs acc = Some (s, rest) \<Longrightarrow> length rest < length cs"
proof (induction cs acc rule: lex_string.induct)
  case (1 acc)
  then show ?case by simp
next
  case (2 c cs acc)
  then show ?case
    by (auto split: if_splits list.splits option.splits prod.splits) fastforce+
qed

text \<open>The tokens of a JSON text; \<open>None\<close> when some character starts no token.\<close>

function lex :: "string \<Rightarrow> token list option" where
  "lex [] = Some []"
| "lex (c # cs) =
     (if is_ws c then lex cs
      else if c = CHR ''{'' then map_option ((#) TLBrace) (lex cs)
      else if c = CHR ''}'' then map_option ((#) TRBrace) (lex cs)
      else if c = CHR ''['' then map_option ((#) TLBracket) (lex cs)
      else if c = CHR '']'' then map_option ((#) TRBracket) (lex cs)
      else if c = CHR '':'' then map_option ((#) TColon) (lex cs)
      else if c = CHR '','' then map_option ((#) TComma) (lex cs)
      else if c = CHR 0x22 then
        (case lex_string cs [] of
           None \<Rightarrow> None
         | Some (s, rest) \<Rightarrow> map_option ((#) (TString s)) (lex rest))
      else if c = CHR ''-'' \<or> is_digit c then
        (if number_ok (c # takeWhile is_number_char cs)
         then map_option ((#) (TNumber (c # takeWhile is_number_char cs)))
                (lex (dropWhile is_number_char cs))
         else None)
      else if take 4 (c # cs) = ''true'' then map_option ((#) TTrue) (lex (drop 3 cs))
      else if take 5 (c # cs) = ''false'' then map_option ((#) TFalse) (lex (drop 4 cs))
      else if take 4 (c # cs) = ''null'' then map_option ((#) TNull) (lex (drop 3 cs))
      else None)"
  by pat_completeness auto
termination
proof (relation "measure length")
  fix c cs x2 x y
  assume "lex_string cs [] = Some x2" and "(x, y) = x2"
  then have "lex_string cs [] = Some (x, y)" by simp
  then show "(y, c # cs) \<in> measure length"
    using lex_string_shorter by fastforce
qed (auto simp: length_dropWhile_le less_Suc_eq_le)

text \<open>
  The parser reads the tokens one by one. It keeps the containers that are still
  open, innermost first (an array with its elements so far, an object with its
  members so far and the key that waits for its value, all latest first), and
  what may come next.
\<close>

datatype frame =
    ArrayFrame "json list"
  | ObjectFrame "(nat list \<times> json) list" "nat list option"

datatype expect =
    Value | ValueOrEnd | KeyOrEnd | Key | Colon | CommaOrEnd | Finished json

text \<open>A complete value goes to the innermost open container, or is the result.\<close>

fun add_value :: "json \<Rightarrow> frame list \<Rightarrow> (expect \<times> frame list) option" where
  "add_value v [] = Some (Finished v, [])"
| "add_value v (ArrayFrame vs # st) = Some (CommaOrEnd, ArrayFrame (v # vs) # st)"
| "add_value v (ObjectFrame ms (Some k) # st) = Some (CommaOrEnd, ObjectFrame ((k, v) # ms) None # st)"
| "add_value v (ObjectFrame ms None # st) = None"

definition starts_value :: "token \<Rightarrow> frame list \<Rightarrow> (expect \<times> frame list) option" where
  "starts_value t st =
     (case t of
        TLBrace \<Rightarrow> Some (KeyOrEnd, ObjectFrame [] None # st)
      | TLBracket \<Rightarrow> Some (ValueOrEnd, ArrayFrame [] # st)
      | TString s \<Rightarrow> add_value (JString s) st
      | TNumber n \<Rightarrow> add_value (JNumber n) st
      | TTrue \<Rightarrow> add_value (JBool True) st
      | TFalse \<Rightarrow> add_value (JBool False) st
      | TNull \<Rightarrow> add_value JNull st
      | _ \<Rightarrow> None)"

definition closes :: "token \<Rightarrow> frame list \<Rightarrow> (expect \<times> frame list) option" where
  "closes t st =
     (case (t, st) of
        (TRBracket, ArrayFrame vs # st') \<Rightarrow> add_value (JArray (rev vs)) st'
      | (TRBrace, ObjectFrame ms None # st') \<Rightarrow> add_value (JObject (rev ms)) st'
      | _ \<Rightarrow> None)"

definition parse_step :: "token \<Rightarrow> expect \<times> frame list \<Rightarrow> (expect \<times> frame list) option" where
  "parse_step t p =
     (case p of (e, st) \<Rightarrow>
       (case e of
          Value \<Rightarrow> starts_value t st
        | ValueOrEnd \<Rightarrow> (if t = TRBracket then closes t st else starts_value t st)
        | KeyOrEnd \<Rightarrow>
            (case (t, st) of
               (TString k, ObjectFrame ms None # st') \<Rightarrow> Some (Colon, ObjectFrame ms (Some k) # st')
             | (TRBrace, _) \<Rightarrow> closes t st
             | _ \<Rightarrow> None)
        | Key \<Rightarrow>
            (case (t, st) of
               (TString k, ObjectFrame ms None # st') \<Rightarrow> Some (Colon, ObjectFrame ms (Some k) # st')
             | _ \<Rightarrow> None)
        | Colon \<Rightarrow> (if t = TColon then Some (Value, st) else None)
        | CommaOrEnd \<Rightarrow>
            (case (t, st) of
               (TComma, ArrayFrame vs # st') \<Rightarrow> Some (Value, st)
             | (TComma, ObjectFrame ms None # st') \<Rightarrow> Some (Key, st)
             | (TRBracket, _) \<Rightarrow> closes t st
             | (TRBrace, _) \<Rightarrow> closes t st
             | _ \<Rightarrow> None)
        | Finished v \<Rightarrow> None))"

fun parse_tokens :: "token list \<Rightarrow> expect \<times> frame list \<Rightarrow> (expect \<times> frame list) option" where
  "parse_tokens [] p = Some p"
| "parse_tokens (t # ts) p =
     (case parse_step t p of None \<Rightarrow> None | Some p' \<Rightarrow> parse_tokens ts p')"

text \<open>\<^verbatim>\<open>JSON.parse\<close>: the value of a text, \<open>None\<close> where it throws a SyntaxError.\<close>

definition JSON_parse :: "string \<Rightarrow> json option" where
  "JSON_parse text =
     (case lex text of
        None \<Rightarrow> None
      | Some ts \<Rightarrow>
          (case parse_tokens ts (Value, []) of
             Some (Finished v, []) \<Rightarrow> Some v
           | _ \<Rightarrow> None))"

text \<open>The code units of an ASCII string.\<close>

definition units :: "string \<Rightarrow> nat list" where
  "units s = map of_char s"

text \<open>Property lookup: of two members with the same key the later one counts.\<close>

definition property :: "(nat list \<times> json) list \<Rightarrow> string \<Rightarrow> json option" where
  "property ms k = map_of (rev ms) (units k)"

definition is_JString :: "json option \<Rightarrow> bool" where
  "is_JString v = (case v of Some (JString s) \<Rightarrow> True | _ \<Rightarrow> False)"

definition is_JNumber :: "json option \<Rightarrow> bool" where
  "is_JNumber v = (case v of Some (JNumber n) \<Rightarrow> True | _ \<Rightarrow> False)"

text \<open>\<^verbatim>\<open>interface EvaluationItem\<close> and \<^verbatim>\<open>interface EvaluationReport\<close> of
  \<^verbatim>\<open>types.ts\<close>, as predicates on a value: every declared property is there
  with its declared type.\<close>

definition is_EvaluationItem :: "json \<Rightarrow> bool" where
  "is_EvaluationItem v =
     (case v of
        JObject ms \<Rightarrow>
          is_JString (property ms ''id'') \<and>
          is_JString (property ms ''questionNumber'') \<and>
          is_JString (property ms ''questionText'') \<and>
          is_JString (property ms ''modelAnswer'') \<and>
          is_JString (property ms ''studentAnswer'') \<and>
          is_JNumber (property ms ''score'') \<and>
          is_JNumber (property ms ''maxScore'') \<and>
          is_JString (property ms ''feedback'')
      | _ \<Rightarrow> False)"

definition is_EvaluationReport :: "json \<Rightarrow> bool" where
  "is_EvaluationReport v =
     (case v of
        JObject ms \<Rightarrow>
          (case property ms ''items'' of
             Some (JArray xs) \<Rightarrow> list_all is_EvaluationItem xs
           | _ \<Rightarrow> False) \<and>
          is_JNumber (property ms ''totalScore'') \<and>
          is_JNumber (property ms ''maxPossibleScore'') \<and>
          is_JString (property ms ''summary'') \<and>
          (case property ms ''improvementAreas'' of
             Some (JArray xs) \<Rightarrow> list_all (\<lambda>x. is_JString (Some x)) xs
           | _ \<Rightarrow> False)
      | _ \<Rightarrow> False)"

text \<open>
  \<^verbatim>\<open>processAndEvaluate\<close>, for the answer of \<^verbatim>\<open>ai.models.generateContent\<close> to its
  one call: a rejection, or a response whose \<^verbatim>\<open>text\<close> is a string or undefined.
  The call is awaited outside the \<^verbatim>\<open>try\<close>; the cast \<^verbatim>\<open>result as EvaluationReport\<close>
  is erased at run time, so the value returned is the parsed value.
\<close>

definition processAndEvaluate :: "exn + string option \<Rightarrow> exn + json" where
  "processAndEvaluate response =
     (case response of
        Inl e \<Rightarrow> Inl e
      | Inr text \<Rightarrow>
          (case JSON_parse (or_default text ''{}'') of
             None \<Rightarrow> Inl (Exn ''Failed to process evaluation report.'')
           | Some result \<Rightarrow> Inr result))"

section \<open>Vocabulary of the statements\<close>

text \<open>
  The record of page \<open>j\<close> once the loop is through with it: the preview, and
  the text or the placeholder with the matching status.
\<close>

definition donePage :: "Env \<Rightarrow> nat \<Rightarrow> PageExtraction" where
  "donePage env j =
     \<lparr>pageNumber = j,
      content = (case extractPage env j of Inr text \<Rightarrow> text | Inl err \<Rightarrow> ''Failed to extract content.''),
      status = (case extractPage env j of Inr text \<Rightarrow> PageCompleted | Inl err \<Rightarrow> PageError),
      imageUrl = (case getPageAsDataUrl env j of Inr u \<Rightarrow> Some u | Inl e \<Rightarrow> None)\<rparr>"

text \<open>The record of page \<open>j\<close> between its preview and its extraction.\<close>

definition previewedPage :: "nat \<Rightarrow> string \<Rightarrow> PageExtraction" where
  "previewedPage j u = \<lparr>pageNumber = j, content = [], status = PageProcessing, imageUrl = Some u\<rparr>"

text \<open>
  The state in which the loop of a document of \<open>N\<close> pages starts the iteration
  for page \<open>i\<close>: the pages before \<open>i\<close> are done, the others pending.
\<close>

definition at_entry :: "Env \<Rightarrow> nat \<Rightarrow> nat \<Rightarrow> ProcessingState \<Rightarrow> bool" where
  "at_entry env N i s \<longleftrightarrow>
     status s = Processing \<and> totalPages s = N \<and> 1 \<le> currentPage s \<and> currentPage s \<le> i \<and>
     errorMessage s = None \<and>
     results s = map (donePage env) [1..<i] @ map pendingPage [i..<Suc N]"

text \<open>The state after the preview update of page \<open>i\<close>.\<close>

definition previewed :: "Env \<Rightarrow> nat \<Rightarrow> nat \<Rightarrow> string \<Rightarrow> ProcessingState \<Rightarrow> bool" where
  "previewed env N i u s \<longleftrightarrow>
     status s = Processing \<and> totalPages s = N \<and> currentPage s = i \<and>
     errorMessage s = None \<and>
     results s = map (donePage env) [1..<i] @ previewedPage i u # map pendingPage [Suc i..<Suc N]"

text \<open>Two consecutive states of the loop: a preview update, or the extraction
  update that follows it.\<close>

definition loop_step :: "Env \<Rightarrow> nat \<Rightarrow> ProcessingState \<Rightarrow> ProcessingState \<Rightarrow> bool" where
  "loop_step env N s s' \<longleftrightarrow>
     (\<exists>i u. 1 \<le> i \<and> i \<le> N \<and> getPageAsDataUrl env i = Inr u \<and>
        (at_entry env N i s \<and> previewed env N i u s' \<and> s' = apply_update (SetPreview i u) s
         \<or> previewed env N i u s \<and> at_entry env N (Suc i) s' \<and> s' = apply_update (extractionUpdate env i) s))"

text \<open>The moves of a page status from one published state to the next: it stays,
  or goes from pending to processing, or from processing to completed or error.\<close>

fun status_step :: "PageStatus \<Rightarrow> PageStatus \<Rightarrow> bool" where
  "status_step PagePending t = (t = PagePending \<or> t = PageProcessing)"
| "status_step PageProcessing t = (t = PageProcessing \<or> t = PageCompleted \<or> t = PageError)"
| "status_step PageCompleted t = (t = PageCompleted)"
| "status_step PageError t = (t = PageError)"

definition terminal :: "PageStatus \<Rightarrow> bool" where
  "terminal t \<longleftrightarrow> t = PageCompleted \<or> t = PageError"

text \<open>A page record from one state to the next: an allowed move of its status,
  and no change at all once the status is terminal.\<close>

definition page_step :: "PageExtraction \<Rightarrow> PageExtraction \<Rightarrow> bool" where
  "page_step r r' \<longleftrightarrow>
     status_step (PageExtraction.status r) (PageExtraction.status r') \<and>
     (terminal (PageExtraction.status r) \<longrightarrow> r' = r)"


text \<open>The statuses seen for the page at index \<open>k\<close> (page \<open>k + 1\<close>) over a trace,
  in the states that have such a page.\<close>

definition observed :: "nat \<Rightarrow> ProcessingState list \<Rightarrow> PageStatus list" where
  "observed k tr =
     map (\<lambda>s. PageExtraction.status (results s ! k)) (filter (\<lambda>s. k < length (results s)) tr)"

text \<open>
  The combined transcript in the words of the specification, written without the
  functions of the code: go through the page numbers 1 to \<open>totalPages\<close> in
  order and take the content of the page of that number when its status is
  completed; the transcript is the first of these contents followed by every
  further one, each preceded by a blank line (two line feeds).
\<close>

definition transcript_spec :: "ProcessingState \<Rightarrow> string" where
  "transcript_spec s =
     (case concat
             (map (\<lambda>n. map content
                         (filter (\<lambda>r. pageNumber r = n \<and> PageExtraction.status r = PageCompleted)
                            (results s)))
                [1..<Suc (totalPages s)]) of
        [] \<Rightarrow> []
      | c # cs \<Rightarrow> c @ concat (map (\<lambda>x. [CHR 0x0A, CHR 0x0A] @ x) cs))"

text \<open>Updates that map over the pages or set the overall status: all but
  \<open>SetLoading\<close>, \<open>Allocate\<close> and \<open>Reset\<close>.\<close>

fun loop_update :: "Update \<Rightarrow> bool" where
  "loop_update (SetPreview i u) = True"
| "loop_update (SetExtracted i t) = True"
| "loop_update (SetPageError i) = True"
| "loop_update SetCompleted = True"
| "loop_update SetFatal = True"
| "loop_update u = False"

section \<open>Example documents and responses\<close>

text \<open>Scenario B of the specification: three pages, the extraction of page 2 fails.\<close>

definition scenarioB :: Env where
  "scenarioB =
     \<lparr>getPageCount = Inr 3,
      getPageAsDataUrl = (\<lambda>i. Inr ''data:image/jpeg;base64,AA''),
      getPageAsImage = (\<lambda>i. Inr ''AA''),
      API_KEY = Some ''key'',
      generateContent =
        (\<lambda>i img. if i = 2 then Inl (Exn ''503'')
                  else Inr (Some (if i = 1 then ''page one'' else ''page three'')))\<rparr>"

text \<open>Two pages and no API key: the extraction of every page fails.\<close>

definition scenarioNoKey :: Env where
  "scenarioNoKey =
     \<lparr>getPageCount = Inr 2,
      getPageAsDataUrl = (\<lambda>i. Inr ''data:image/jpeg;base64,AA''),
      getPageAsImage = (\<lambda>i. Inr ''AA''),
      API_KEY = None,
      generateContent = (\<lambda>i img. Inr (Some ''text''))\<rparr>"

text \<open>Two pages; the extraction-quality image of page 1 cannot be rendered.\<close>

definition scenarioImageFails :: Env where
  "scenarioImageFails =
     \<lparr>getPageCount = Inr 2,
      getPageAsDataUrl = (\<lambda>i. Inr ''data:image/jpeg;base64,AA''),
      getPageAsImage = (\<lambda>i. if i = 1 then Inl (Exn ''Could not create canvas context'') else Inr ''AA''),
      API_KEY = Some ''key'',
      generateContent = (\<lambda>i img. Inr (Some ''text''))\<rparr>"

text \<open>Three pages; the preview of page 2 cannot be rendered.\<close>

definition scenarioPreviewFails :: Env where
  "scenarioPreviewFails =
     \<lparr>getPageCount = Inr 3,
      getPageAsDataUrl = (\<lambda>i. if i = 2 then Inl (Exn ''Could not create canvas context'')
                            else Inr ''data:image/jpeg;base64,AA''),
      getPageAsImage = (\<lambda>i. Inr ''AA''),
      API_KEY = Some ''key'',
      generateContent = (\<lambda>i img. Inr (Some ''text''))\<rparr>"

text \<open>One page; the backend answers with a response that carries no text.\<close>

definition scenarioNoText :: Env where
  "scenarioNoText =
     \<lparr>getPageCount = Inr 1,
      getPageAsDataUrl = (\<lambda>i. Inr ''data:image/jpeg;base64,AA''),
      getPageAsImage = (\<lambda>i. Inr ''AA''),
      API_KEY = Some ''key'',
      generateContent = (\<lambda>i img. Inr None)\<rparr>"


text \<open>A JSON text written with backquotes in the place of its double quotes.\<close>

definition json_text :: "string \<Rightarrow> string" where
  "json_text s = map (\<lambda>c. if c = CHR 0x60 then CHR 0x22 else c) s"

text \<open>A grading report of two items, as the backend may send it, and its value.\<close>

definition example_report_text :: string where
  "example_report_text = json_text
     (''{`items`:[{`id`:`b`,`questionNumber`:`2(a)`,`questionText`:`Q2`,`modelAnswer`:`M2`,'' @
      ''`studentAnswer`:`S2`,`score`:1.5,`maxScore`:2,`feedback`:`F2`},'' @
      ''{`id`:`a`,`questionNumber`:`1`,`questionText`:`Q1`,`modelAnswer`:`M1`,'' @
      ''`studentAnswer`:`S1`,`score`:3,`maxScore`:3,`feedback`:`F1`}],'' @
      ''`totalScore`:4.5,`maxPossibleScore`:5,`summary`:`good`,`improvementAreas`:[`units`]}'')"

definition example_report :: json where
  "example_report =
     JObject
       [(units ''items'',
         JArray
           [JObject
              [(units ''id'', JString (units ''b'')),
               (units ''questionNumber'', JString (units ''2(a)'')),
               (units ''questionText'', JString (units ''Q2'')),
               (units ''modelAnswer'', JString (units ''M2'')),
               (units ''studentAnswer'', JString (units ''S2'')),
               (units ''score'', JNumber ''1.5''),
               (units ''maxScore'', JNumber ''2''),
               (units ''feedback'', JString (units ''F2''))],
            JObject
              [(units ''id'', JString (units ''a'')),
               (units ''questionNumber'', JString (units ''1'')),
               (units ''questionText'', JString (units ''Q1'')),
               (units ''modelAnswer'', JString (units ''M1'')),
               (units ''studentAnswer'', JString (units ''S1'')),
               (units ''score'', JNumber ''3''),
               (units ''maxScore'', JNumber ''3''),
               (units ''feedback'', JString (units ''F1''))]]),
        (units ''totalScore'', JNumber ''4.5''),
        (units ''maxPossibleScore'', JNumber ''5''),
        (units ''summary'', JString (units ''good'')),
        (units ''improvementAreas'', JArray [JString (units ''units'')])]"

declare loop.simps [simp del]

section \<open>A failing page-count query\<close>




section \<open>The page loop, update by update\<close>

lemma map_if_pageNumber_other:
  "\<forall>r \<in> set xs. pageNumber r \<noteq> i \<Longrightarrow> map (\<lambda>r. if pageNumber r = i then f r else r) xs = xs"
  by (induction xs) auto

lemma pageNumber_donePage [simp]: "pageNumber (donePage env j) = j"
  by (simp add: donePage_def)

lemma pageNumber_pendingPage [simp]: "pageNumber (pendingPage j) = j"
  by (simp add: pendingPage_def)

lemma map_if_done: "map (\<lambda>r. if pageNumber r = i then f r else r) (map (donePage env) [1..<i]) = map (donePage env) [1..<i]"
  by (rule map_if_pageNumber_other) auto

lemma map_if_pending: "map (\<lambda>r. if pageNumber r = i then f r else r) (map pendingPage [Suc i..<n]) = map pendingPage [Suc i..<n]"
  by (rule map_if_pageNumber_other) auto

lemma preview_step:
  assumes "at_entry env N i s" "i \<le> N"
  shows "previewed env N i u (apply_update (SetPreview i u) s)"
proof -
  from assms(2) have "[i..<Suc N] = i # [Suc i..<Suc N]"
    by (simp add: upt_conv_Cons del: upt_Suc)
  with assms(1) show ?thesis
    by (simp add: at_entry_def previewed_def map_if_done map_if_pending previewedPage_def
        pendingPage_def del: upt_Suc)
qed

lemma extraction_step:
  assumes "previewed env N i u s" "getPageAsDataUrl env i = Inr u" "1 \<le> i"
  shows "at_entry env N (Suc i) (apply_update (extractionUpdate env i) s)"
  using assms
  by (cases "extractPage env i")
     (simp_all add: at_entry_def previewed_def extractionUpdate_def map_if_done map_if_pending
        previewedPage_def donePage_def upt_Suc_append del: upt_Suc)

lemma allocate_at_entry: "at_entry env N 1 (apply_update (Allocate N) (apply_update SetLoading s))"
  by (simp add: at_entry_def map_Suc_upt [symmetric] del: upt_Suc)

lemma final_state_Nil [simp]: "final_state s [] = s"
  by (simp add: final_state_def)

lemma final_state_Cons [simp]: "final_state s (u # us) = final_state (apply_update u s) us"
  by (simp add: final_state_def)

lemma published_append:
  "published s (us @ vs) = published s us @ published (final_state s us) vs"
  by (induction us arbitrary: s) simp_all

lemma final_state_append: "final_state s (us @ vs) = final_state (final_state s us) vs"
  by (induction us arbitrary: s) simp_all

lemma length_published [simp]: "length (published s us) = length us"
  by (induction us arbitrary: s) simp_all

lemma loop_trace:
  assumes "at_entry env N i s" and "1 \<le> i" and "i \<le> Suc N"
  shows "successively (loop_step env N) (s # published s (fst (loop env N i)))
       \<and> (\<exists>f. i \<le> f \<and> f \<le> Suc N
              \<and> at_entry env N f (final_state s (fst (loop env N i)))
              \<and> (snd (loop env N i) = None \<longleftrightarrow> f = Suc N)
              \<and> (f \<le> N \<longrightarrow> isl (getPageAsDataUrl env f))
              \<and> (\<forall>j. i \<le> j \<and> j < f \<longrightarrow> \<not> isl (getPageAsDataUrl env j)))"
  using assms
proof (induction env N i arbitrary: s rule: loop.induct)
  case (1 env count i)
  show ?case
  proof (cases "i \<le> count")
    case False
    with "1.prems" have "i = Suc count" by simp
    moreover have "loop env count i = ([], None)"
      using False by (simp add: loop.simps)
    moreover have "\<forall>j. i \<le> j \<and> j < Suc count \<longrightarrow> \<not> isl (getPageAsDataUrl env j)"
    proof (intro allI impI)
      fix j assume "i \<le> j \<and> j < Suc count"
      with False have False by linarith
      then show "\<not> isl (getPageAsDataUrl env j)" ..
    qed
    ultimately show ?thesis using "1.prems"(1)
      by (intro conjI exI [of _ "Suc count"]) simp_all
  next
    case True
    show ?thesis
    proof (cases "getPageAsDataUrl env i")
      case (Inl e)
      then have "loop env count i = ([], Some e)"
        using True by (simp add: loop.simps)
      then have "fst (loop env count i) = []" "snd (loop env count i) = Some e"
        by simp_all
      moreover have "\<forall>j. i \<le> j \<and> j < i \<longrightarrow> \<not> isl (getPageAsDataUrl env j)"
      proof (intro allI impI)
        fix j assume "i \<le> j \<and> j < i"
        then have False by linarith
        then show "\<not> isl (getPageAsDataUrl env j)" ..
      qed
      ultimately show ?thesis
        using Inl True "1.prems"(1) by (intro conjI exI [of _ i]) simp_all
    next
      case (Inr u)
      define s1 where "s1 = apply_update (SetPreview i u) s"
      define s2 where "s2 = apply_update (extractionUpdate env i) s1"
      have p1: "previewed env count i u s1"
        unfolding s1_def using "1.prems"(1) True by (rule preview_step)
      have p2: "at_entry env count (Suc i) s2"
        unfolding s2_def using p1 Inr "1.prems"(2) by (rule extraction_step)
      have l: "loop env count i =
                 (SetPreview i u # extractionUpdate env i # fst (loop env count (i + 1)),
                  snd (loop env count (i + 1)))"
        using True Inr by (subst loop.simps) (simp split: prod.splits)
      have st1: "loop_step env count s s1"
        unfolding loop_step_def using "1.prems" True Inr p1 s1_def by blast
      have st2: "loop_step env count s1 s2"
        unfolding loop_step_def using "1.prems" True Inr p1 p2 s2_def by blast
      have fs: "final_state s (fst (loop env count i)) = final_state s2 (fst (loop env count (i + 1)))"
        by (simp add: l s1_def s2_def)
      have sn: "snd (loop env count i) = snd (loop env count (i + 1))"
        by (simp add: l)
      have "i + 1 \<le> Suc count" using True by simp
      with "1.IH" [OF True Inr, of s2] p2
      have ih: "successively (loop_step env count) (s2 # published s2 (fst (loop env count (i + 1))))"
        and ex: "\<exists>f. i + 1 \<le> f \<and> f \<le> Suc count
              \<and> at_entry env count f (final_state s2 (fst (loop env count (i + 1))))
              \<and> (snd (loop env count (i + 1)) = None \<longleftrightarrow> f = Suc count)
              \<and> (f \<le> count \<longrightarrow> isl (getPageAsDataUrl env f))
              \<and> (\<forall>j. i + 1 \<le> j \<and> j < f \<longrightarrow> \<not> isl (getPageAsDataUrl env j))"
        by simp_all
      from ex obtain f where f1: "i + 1 \<le> f" and f2: "f \<le> Suc count"
          and f3: "at_entry env count f (final_state s2 (fst (loop env count (i + 1))))"
          and f4: "snd (loop env count (i + 1)) = None \<longleftrightarrow> f = Suc count"
          and f5: "f \<le> count \<longrightarrow> isl (getPageAsDataUrl env f)"
          and f6: "\<forall>j. i + 1 \<le> j \<and> j < f \<longrightarrow> \<not> isl (getPageAsDataUrl env j)"
        by (elim exE conjE)
      have f6': "\<forall>j. i \<le> j \<and> j < f \<longrightarrow> \<not> isl (getPageAsDataUrl env j)"
      proof (intro allI impI)
        fix j assume "i \<le> j \<and> j < f"
        then consider "j = i" | "i + 1 \<le> j \<and> j < f" by linarith
        then show "\<not> isl (getPageAsDataUrl env j)"
        proof cases
          case 1 then show ?thesis using Inr by simp
        next
          case 2 then show ?thesis using f6 by blast
        qed
      qed
      have "i \<le> f" using f1 by simp
      then have "\<exists>f. i \<le> f \<and> f \<le> Suc count
              \<and> at_entry env count f (final_state s (fst (loop env count i)))
              \<and> (snd (loop env count i) = None \<longleftrightarrow> f = Suc count)
              \<and> (f \<le> count \<longrightarrow> isl (getPageAsDataUrl env f))
              \<and> (\<forall>j. i \<le> j \<and> j < f \<longrightarrow> \<not> isl (getPageAsDataUrl env j))"
        unfolding fs sn using f2 f3 f4 f5 f6' by (intro exI [of _ f] conjI)
      moreover have "successively (loop_step env count) (s # published s (fst (loop env count i)))"
        using st1 st2 ih unfolding s1_def s2_def by (simp add: l)
      ultimately show ?thesis by blast
    qed
  qed
qed

lemma loop_updates:
  "getPageCount env = Inr N \<Longrightarrow>
   processFile env =
     SetLoading # Allocate N # fst (loop env N 1) @
       [case snd (loop env N 1) of None \<Rightarrow> SetCompleted | Some e \<Rightarrow> SetFatal]"
  by (simp add: processFile_def split: prod.splits option.splits)

lemma last_published: "last (s # published s us) = final_state s us"
  by (simp add: final_state_def)


lemma run_final:
  assumes c: "getPageCount env = Inr N"
  shows "\<exists>f. 1 \<le> f \<and> f \<le> Suc N
           \<and> (\<forall>j. 1 \<le> j \<and> j < f \<longrightarrow> \<not> isl (getPageAsDataUrl env j))
           \<and> (f \<le> N \<longrightarrow> isl (getPageAsDataUrl env f))
           \<and> results (final_state s0 (processFile env)) =
               map (donePage env) [1..<f] @ map pendingPage [f..<Suc N]
           \<and> status (final_state s0 (processFile env)) = (if f = Suc N then Completed else Error)
           \<and> errorMessage (final_state s0 (processFile env)) =
               (if f = Suc N then None
                else Some ''Failed to process file. Make sure it is a valid PDF.'')
           \<and> totalPages (final_state s0 (processFile env)) = N"
proof -
  define a where "a = apply_update (Allocate N) (apply_update SetLoading s0)"
  define us where "us = fst (loop env N 1)"
  define fin where "fin = (case snd (loop env N 1) of None \<Rightarrow> SetCompleted | Some e \<Rightarrow> SetFatal)"
  have ae: "at_entry env N 1 a"
    unfolding a_def by (rule allocate_at_entry)
  from loop_trace [OF ae] obtain f
    where f1: "1 \<le> f" and f2: "f \<le> Suc N"
      and f3: "at_entry env N f (final_state a us)"
      and f4: "snd (loop env N 1) = None \<longleftrightarrow> f = Suc N"
      and f5: "f \<le> N \<longrightarrow> isl (getPageAsDataUrl env f)"
      and f6: "\<forall>j. 1 \<le> j \<and> j < f \<longrightarrow> \<not> isl (getPageAsDataUrl env j)"
    unfolding us_def by auto
  have fs: "final_state s0 (processFile env) = apply_update fin (final_state a us)"
    by (simp add: loop_updates [OF c] final_state_append a_def us_def fin_def)
  have "results (apply_update fin (final_state a us)) =
            map (donePage env) [1..<f] @ map pendingPage [f..<Suc N]"
    using f3 by (simp add: at_entry_def fin_def split: option.splits)
  moreover have "status (apply_update fin (final_state a us)) = (if f = Suc N then Completed else Error)"
    using f4 by (auto simp: fin_def split: option.splits)
  moreover have "errorMessage (apply_update fin (final_state a us)) =
      (if f = Suc N then None else Some ''Failed to process file. Make sure it is a valid PDF.'')"
    using f3 f4 by (auto simp: at_entry_def fin_def split: option.splits)
  moreover have "totalPages (apply_update fin (final_state a us)) = N"
    using f3 by (simp add: at_entry_def fin_def split: option.splits)
  ultimately show ?thesis
    unfolding fs using f1 f2 f5 f6 by (intro exI [of _ f] conjI)
qed

section \<open>What one step of the loop changes\<close>

lemma status_step_refl [simp]: "status_step t t"
  by (cases t) simp_all

lemma page_step_refl [simp]: "page_step r r"
  by (simp add: page_step_def)

lemma list_all2_page_step_refl [simp]: "list_all2 page_step xs xs"
  by (simp add: list_all2_refl)

lemma currentPage_extractionUpdate [simp]:
  "currentPage (apply_update (extractionUpdate env i) s) = currentPage s"
  by (simp add: extractionUpdate_def split: sum.splits)


lemma at_entry_length: "at_entry env N i s \<Longrightarrow> 1 \<le> i \<Longrightarrow> i \<le> Suc N \<Longrightarrow> length (results s) = N"
  by (auto simp: at_entry_def)

lemma previewed_length: "previewed env N i u s \<Longrightarrow> 1 \<le> i \<Longrightarrow> i \<le> N \<Longrightarrow> length (results s) = N"
  by (auto simp: previewed_def)

lemma loop_step_length:
  assumes "loop_step env N s s'"
  shows "length (results s') = N \<and> totalPages s' = N \<and> length (results s) = N \<and> 1 \<le> N"
proof -
  from assms obtain i u where i: "1 \<le> i" "i \<le> N"
    and d: "at_entry env N i s \<and> previewed env N i u s' \<or> previewed env N i u s \<and> at_entry env N (Suc i) s'"
    unfolding loop_step_def by blast
  have n: "1 \<le> N" using i by simp
  from d show ?thesis
  proof
    assume a: "at_entry env N i s \<and> previewed env N i u s'"
    then have "length (results s) = N" "length (results s') = N"
      using i at_entry_length [of env N i s] previewed_length [of env N i u s'] by simp_all
    moreover have "totalPages s' = N" using a by (simp add: previewed_def)
    ultimately show ?thesis using n by simp
  next
    assume a: "previewed env N i u s \<and> at_entry env N (Suc i) s'"
    then have "length (results s) = N" "length (results s') = N"
      using i at_entry_length [of env N "Suc i" s'] previewed_length [of env N i u s] by simp_all
    moreover have "totalPages s' = N" using a by (simp add: at_entry_def)
    ultimately show ?thesis using n by simp
  qed
qed



section \<open>Allocation and progress\<close>

lemma run_decomposition:
  assumes c: "getPageCount env = Inr N"
  shows "\<exists>us fin f.
           published s0 (processFile env) =
             apply_update SetLoading s0 #
             (apply_update (Allocate N) (apply_update SetLoading s0) #
                published (apply_update (Allocate N) (apply_update SetLoading s0)) us) @
             [apply_update fin (final_state (apply_update (Allocate N) (apply_update SetLoading s0)) us)]
         \<and> successively (loop_step env N)
               (apply_update (Allocate N) (apply_update SetLoading s0) #
                published (apply_update (Allocate N) (apply_update SetLoading s0)) us)
         \<and> at_entry env N f (final_state (apply_update (Allocate N) (apply_update SetLoading s0)) us)
         \<and> (fin = SetCompleted \<or> fin = SetFatal)"
proof -
  define a where "a = apply_update (Allocate N) (apply_update SetLoading s0)"
  define us where "us = fst (loop env N 1)"
  define fin where "fin = (case snd (loop env N 1) of None \<Rightarrow> SetCompleted | Some e \<Rightarrow> SetFatal)"
  have ae: "at_entry env N 1 a"
    unfolding a_def by (rule allocate_at_entry)
  from loop_trace [OF ae] obtain f
    where lt: "successively (loop_step env N) (a # published a us)"
      and f: "at_entry env N f (final_state a us)"
    unfolding us_def by auto
  have pf: "published s0 (processFile env) =
              apply_update SetLoading s0 # (a # published a us) @ [apply_update fin (final_state a us)]"
    by (simp add: loop_updates [OF c] published_append a_def us_def fin_def)
  have "fin = SetCompleted \<or> fin = SetFatal"
    by (simp add: fin_def split: option.splits)
  with pf lt f show ?thesis
    unfolding a_def by blast
qed

lemma successively_targets:
  "successively R (x # xs) \<Longrightarrow> (\<And>s s'. R s s' \<Longrightarrow> P s') \<Longrightarrow> list_all P xs"
  by (induction xs arbitrary: x) auto

lemma totals_after_final:
  "fin = SetCompleted \<or> fin = SetFatal \<Longrightarrow>
   totalPages (apply_update fin s) = totalPages s \<and> results (apply_update fin s) = results s
   \<and> currentPage (apply_update fin s) = currentPage s"
  by auto

lemma allocated_pages: "map (\<lambda>i. pendingPage (Suc i)) [0..<N] = map pendingPage [Suc 0..<Suc N]"
  by (simp add: map_Suc_upt [symmetric] del: upt_Suc)

text \<open>
  Claim C7. When the page count \<open>N\<close> is known, the second published state (the one
  in which \<open>totalPages\<close> becomes \<open>N\<close>; the first still has the total of the
  start state) holds exactly \<open>N\<close> records, numbered \<open>1..N\<close>, each with
  status pending, empty content and no image; its update is issued before every
  update of the page loop, so before any page is rendered or extracted. Every
  state published from then on has \<open>totalPages = N\<close> and \<open>N\<close> records.
\<close>

theorem pages_allocated_with_total:
  assumes "getPageCount env = Inr N"
  shows "take 2 (processFile env) = [SetLoading, Allocate N]
       \<and> (\<exists>rest.
             published s0 (processFile env) =
               s0\<lparr>status := Loading, errorMessage := None\<rparr> #
               s0\<lparr>status := Processing, errorMessage := None, totalPages := N, currentPage := 1,
                  results :=
                    map (\<lambda>n. \<lparr>pageNumber = n, content = [], status = PagePending, imageUrl = None\<rparr>)
                      [1..<Suc N]\<rparr> # rest
           \<and> list_all (\<lambda>s. totalPages s = N \<and> length (results s) = N) rest)
       \<and> totalPages (published s0 (processFile env) ! 0) = totalPages s0
       \<and> totalPages (published s0 (processFile env) ! 1) = N
       \<and> length (results (published s0 (processFile env) ! 1)) = N
       \<and> map pageNumber (results (published s0 (processFile env) ! 1)) = [1..<Suc N]
       \<and> list_all (\<lambda>r. PageExtraction.status r = PagePending \<and> content r = [] \<and> imageUrl r = None)
            (results (published s0 (processFile env) ! 1))"
proof -
  define a where "a = apply_update (Allocate N) (apply_update SetLoading s0)"
  from run_decomposition [OF assms, of s0] obtain us fin f
    where pf: "published s0 (processFile env) =
                 apply_update SetLoading s0 # (a # published a us) @ [apply_update fin (final_state a us)]"
      and lt: "successively (loop_step env N) (a # published a us)"
      and f: "at_entry env N f (final_state a us)"
      and fin: "fin = SetCompleted \<or> fin = SetFatal"
    unfolding a_def by blast
  have la: "length (results a) = N \<and> totalPages a = N"
    by (simp add: a_def)
  have mid: "list_all (\<lambda>s. length (results s) = N \<and> totalPages s = N) (published a us)"
    using lt by (rule successively_targets) (simp add: loop_step_length)
  then have "list_all (\<lambda>s. length (results s) = N \<and> totalPages s = N) (a # published a us)"
    using la by simp
  then have "length (results (final_state a us)) = N \<and> totalPages (final_state a us) = N"
    unfolding last_published [symmetric] list_all_iff by (metis last_in_set list.distinct(1))
  then have lf: "length (results (apply_update fin (final_state a us))) = N
               \<and> totalPages (apply_update fin (final_state a us)) = N"
    using totals_after_final [OF fin] by simp
  have all: "list_all (\<lambda>s. totalPages s = N \<and> length (results s) = N)
          (published a us @ [apply_update fin (final_state a us)])"
    using mid lf by (simp add: list_all_iff)
  have a_eq: "a = s0\<lparr>status := Processing, errorMessage := None, totalPages := N, currentPage := 1,
                results :=
                  map (\<lambda>n. \<lparr>pageNumber = n, content = [], status = PagePending, imageUrl = None\<rparr>)
                    [1..<Suc N]\<rparr>"
  proof -
    have "a = s0\<lparr>status := Processing, errorMessage := None, totalPages := N, currentPage := 1,
                results := map pendingPage [1..<Suc N]\<rparr>"
      unfolding a_def by (simp add: allocated_pages del: upt_Suc)
    moreover have "pendingPage =
        (\<lambda>n. \<lparr>pageNumber = n, content = [], status = PagePending, imageUrl = None\<rparr>)"
      by (rule ext) (simp add: pendingPage_def)
    ultimately show ?thesis by (simp only:)
  qed
  have shape: "\<exists>rest.
           published s0 (processFile env) =
             s0\<lparr>status := Loading, errorMessage := None\<rparr> #
             s0\<lparr>status := Processing, errorMessage := None, totalPages := N, currentPage := 1,
                results :=
                  map (\<lambda>n. \<lparr>pageNumber = n, content = [], status = PagePending, imageUrl = None\<rparr>)
                    [1..<Suc N]\<rparr> # rest
         \<and> list_all (\<lambda>s. totalPages s = N \<and> length (results s) = N) rest"
    using pf all a_eq
    by (intro exI [of _ "published a us @ [apply_update fin (final_state a us)]"]) simp
  have first: "take 2 (processFile env) = [SetLoading, Allocate N]"
    by (simp add: loop_updates [OF assms])
  have p0: "published s0 (processFile env) ! 0 = apply_update SetLoading s0"
    and p1: "published s0 (processFile env) ! 1 = a"
    by (simp_all add: pf)
  have t0: "totalPages (published s0 (processFile env) ! 0) = totalPages s0"
    by (simp add: p0)
  have t1: "totalPages (published s0 (processFile env) ! 1) = N"
    and l1: "length (results (published s0 (processFile env) ! 1)) = N"
    using la by (simp_all only: p1)
  have ra: "results a = map (\<lambda>n. \<lparr>pageNumber = n, content = [], status = PagePending, imageUrl = None\<rparr>)
                      [1..<Suc N]"
    by (subst a_eq) simp
  then have n1: "map pageNumber (results (published s0 (processFile env) ! 1)) = [1..<Suc N]"
    unfolding p1 by (simp add: comp_def del: upt_Suc)
  from ra have e1: "list_all (\<lambda>r. PageExtraction.status r = PagePending \<and> content r = [] \<and> imageUrl r = None)
            (results (published s0 (processFile env) ! 1))"
    unfolding p1 by (simp add: list_all_iff del: upt_Suc)
  from first shape t0 t1 l1 n1 e1 show ?thesis
    by (intro conjI)
qed

theorem pages_allocated_with_total_witness:
  "getPageCount scenarioB = Inr 3
   \<and> take 2 (processFile scenarioB) = [SetLoading, Allocate 3]
   \<and> published initial_state (processFile scenarioB) ! 1 =
       \<lparr>status = Processing, totalPages = 3, currentPage = 1,
        results =
          [\<lparr>pageNumber = 1, content = [], status = PagePending, imageUrl = None\<rparr>,
           \<lparr>pageNumber = 2, content = [], status = PagePending, imageUrl = None\<rparr>,
           \<lparr>pageNumber = 3, content = [], status = PagePending, imageUrl = None\<rparr>],
        errorMessage = None\<rparr>
   \<and> list_all (\<lambda>r. PageExtraction.status r = PagePending \<and> content r = [] \<and> imageUrl r = None)
        (results (published initial_state (processFile scenarioB) ! 1))
   \<and> map (\<lambda>s. (totalPages s, length (results s))) (published initial_state (processFile scenarioB)) =
       [(0, 0), (3, 3), (3, 3), (3, 3), (3, 3), (3, 3), (3, 3), (3, 3), (3, 3)]"
proof -
  have c: "getPageCount scenarioB = Inr 3"
    by (simp add: scenarioB_def)
  note th = pages_allocated_with_total [OF c, of initial_state]
  have t: "take 2 (processFile scenarioB) = [SetLoading, Allocate 3]"
    using th by (elim conjE)
  have e: "list_all (\<lambda>r. PageExtraction.status r = PagePending \<and> content r = [] \<and> imageUrl r = None)
        (results (published initial_state (processFile scenarioB) ! 1))"
    using th by (elim conjE)
  have v: "published initial_state (processFile scenarioB) ! 1 =
       \<lparr>status = Processing, totalPages = 3, currentPage = 1,
        results =
          [\<lparr>pageNumber = 1, content = [], status = PagePending, imageUrl = None\<rparr>,
           \<lparr>pageNumber = 2, content = [], status = PagePending, imageUrl = None\<rparr>,
           \<lparr>pageNumber = 3, content = [], status = PagePending, imageUrl = None\<rparr>],
        errorMessage = None\<rparr>"
    by code_simp
  have w: "map (\<lambda>s. (totalPages s, length (results s))) (published initial_state (processFile scenarioB)) =
       [(0, 0), (3, 3), (3, 3), (3, 3), (3, 3), (3, 3), (3, 3), (3, 3), (3, 3)]"
    by code_simp
  from c t v e w show ?thesis
    by (intro conjI)
qed





section \<open>The life cycle of a page\<close>


lemma observed_Nil [simp]: "observed k [] = []"
  by (simp add: observed_def)













section \<open>The final state of a run\<close>

lemma stop_unique:
  assumes f: "1 \<le> f" "f \<le> Suc N"
    and fo: "\<forall>j. 1 \<le> j \<and> j < f \<longrightarrow> \<not> isl (getPageAsDataUrl env j)"
    and ff: "f \<le> N \<longrightarrow> isl (getPageAsDataUrl env f)"
    and g: "1 \<le> g" "g \<le> Suc N"
    and go: "\<forall>j. 1 \<le> j \<and> j < g \<longrightarrow> \<not> isl (getPageAsDataUrl env j)"
    and gf: "g \<le> N \<longrightarrow> isl (getPageAsDataUrl env g)"
  shows "f = g"
proof (rule ccontr)
  assume "f \<noteq> g"
  then consider "f < g" | "g < f" by linarith
  then show False
  proof cases
    case 1
    with g have "f \<le> N" by simp
    with ff have "isl (getPageAsDataUrl env f)" by simp
    moreover from go f 1 have "\<not> isl (getPageAsDataUrl env f)" by simp
    ultimately show False by simp
  next
    case 2
    with f have "g \<le> N" by simp
    with gf have "isl (getPageAsDataUrl env g)" by simp
    moreover from fo g 2 have "\<not> isl (getPageAsDataUrl env g)" by simp
    ultimately show False by simp
  qed
qed

lemma run_final_at:
  assumes c: "getPageCount env = Inr N"
    and g: "1 \<le> g" "g \<le> Suc N"
    and go: "\<forall>j. 1 \<le> j \<and> j < g \<longrightarrow> \<not> isl (getPageAsDataUrl env j)"
    and gf: "g \<le> N \<longrightarrow> isl (getPageAsDataUrl env g)"
  shows "results (final_state s0 (processFile env)) =
           map (donePage env) [1..<g] @ map pendingPage [g..<Suc N]"
    and "status (final_state s0 (processFile env)) = (if g = Suc N then Completed else Error)"
    and "errorMessage (final_state s0 (processFile env)) =
           (if g = Suc N then None
            else Some ''Failed to process file. Make sure it is a valid PDF.'')"
    and "totalPages (final_state s0 (processFile env)) = N"
proof -
  from run_final [OF c, of s0] obtain f where f: "1 \<le> f" "f \<le> Suc N"
    and fo: "\<forall>j. 1 \<le> j \<and> j < f \<longrightarrow> \<not> isl (getPageAsDataUrl env j)"
    and ff: "f \<le> N \<longrightarrow> isl (getPageAsDataUrl env f)"
    and r: "results (final_state s0 (processFile env)) =
               map (donePage env) [1..<f] @ map pendingPage [f..<Suc N]"
           "status (final_state s0 (processFile env)) = (if f = Suc N then Completed else Error)"
           "errorMessage (final_state s0 (processFile env)) =
               (if f = Suc N then None
                else Some ''Failed to process file. Make sure it is a valid PDF.'')"
           "totalPages (final_state s0 (processFile env)) = N"
    by blast
  have "f = g"
    using f fo ff g go gf by (rule stop_unique)
  with r show "results (final_state s0 (processFile env)) =
           map (donePage env) [1..<g] @ map pendingPage [g..<Suc N]"
    and "status (final_state s0 (processFile env)) = (if g = Suc N then Completed else Error)"
    and "errorMessage (final_state s0 (processFile env)) =
           (if g = Suc N then None
            else Some ''Failed to process file. Make sure it is a valid PDF.'')"
    and "totalPages (final_state s0 (processFile env)) = N"
    by simp_all
qed

lemma run_final_reached:
  assumes c: "getPageCount env = Inr N"
    and i: "1 \<le> i" "i \<le> N"
    and ok: "\<forall>j. 1 \<le> j \<and> j \<le> i \<longrightarrow> \<not> isl (getPageAsDataUrl env j)"
  shows "i - 1 < length (results (final_state s0 (processFile env)))
       \<and> results (final_state s0 (processFile env)) ! (i - 1) = donePage env i"
proof -
  from run_final [OF c, of s0] obtain f where f: "1 \<le> f" "f \<le> Suc N"
    and ff: "f \<le> N \<longrightarrow> isl (getPageAsDataUrl env f)"
    and r: "results (final_state s0 (processFile env)) =
               map (donePage env) [1..<f] @ map pendingPage [f..<Suc N]"
    by blast
  have "i < f"
  proof (rule ccontr)
    assume "\<not> i < f"
    then have "f \<le> i" by simp
    with i ff have "isl (getPageAsDataUrl env f)" by simp
    with ok f \<open>f \<le> i\<close> show False by simp
  qed
  then have k: "i - 1 < length (map (donePage env) [1..<f])"
    using i by simp
  have "[1..<f] ! (i - 1) = i"
    using i \<open>i < f\<close> by simp
  with k have "(map (donePage env) [1..<f] @ map pendingPage [f..<Suc N]) ! (i - 1) = donePage env i"
    by (simp add: nth_append)
  with r k show ?thesis by simp
qed

lemma run_final_unreached:
  assumes c: "getPageCount env = Inr N"
    and g: "1 \<le> g" "g \<le> N"
    and go: "\<forall>j. 1 \<le> j \<and> j < g \<longrightarrow> \<not> isl (getPageAsDataUrl env j)"
    and gf: "isl (getPageAsDataUrl env g)"
    and j: "g \<le> j" "j \<le> N"
  shows "results (final_state s0 (processFile env)) ! (j - 1) = pendingPage j"
proof -
  have r: "results (final_state s0 (processFile env)) =
           map (donePage env) [1..<g] @ map pendingPage [g..<Suc N]"
    using c g(1) _ go by (rule run_final_at) (use g gf in simp_all)
  have "(map (donePage env) [1..<g] @ map pendingPage [g..<Suc N]) ! (j - 1) =
          map pendingPage [g..<Suc N] ! (j - g)"
    using g j by (simp add: nth_append)
  also have "\<dots> = pendingPage j"
    using g j by (simp del: upt_Suc)
  finally show ?thesis using r by simp
qed

section \<open>Failures of extraction and of rendering\<close>

lemma donePage_failed:
  "isl (extractPage env i) \<Longrightarrow>
   content (donePage env i) = ''Failed to extract content.''
   \<and> PageExtraction.status (donePage env i) = PageError"
  by (cases "extractPage env i") (simp_all add: donePage_def)

lemma donePage_extracted:
  "extractPage env i = Inr t \<Longrightarrow>
   content (donePage env i) = t \<and> PageExtraction.status (donePage env i) = PageCompleted"
  by (simp add: donePage_def)

lemma donePage_terminal: "terminal (PageExtraction.status (donePage env i))"
  by (cases "extractPage env i") (simp_all add: donePage_def terminal_def)

lemma image_failure_fails_extraction: "isl (getPageAsImage env i) \<Longrightarrow> isl (extractPage env i)"
  by (cases "getPageAsImage env i") (simp_all add: extractPage_def)

lemma completed_when_no_preview_fails:
  assumes c: "getPageCount env = Inr N"
    and ok: "\<forall>j. 1 \<le> j \<and> j \<le> N \<longrightarrow> \<not> isl (getPageAsDataUrl env j)"
  shows "status (final_state s0 (processFile env)) = Completed
       \<and> (\<forall>j. 1 \<le> j \<and> j \<le> N \<longrightarrow>
             terminal (PageExtraction.status (results (final_state s0 (processFile env)) ! (j - 1))))"
proof -
  have "status (final_state s0 (processFile env)) = (if Suc N = Suc N then Completed else Error)"
    using c _ _ _ _ by (rule run_final_at(2)) (use ok in simp_all)
  moreover have "\<forall>j. 1 \<le> j \<and> j \<le> N \<longrightarrow>
             terminal (PageExtraction.status (results (final_state s0 (processFile env)) ! (j - 1)))"
  proof (intro allI impI)
    fix j assume j: "1 \<le> j \<and> j \<le> N"
    with ok have "\<forall>k. 1 \<le> k \<and> k \<le> j \<longrightarrow> \<not> isl (getPageAsDataUrl env k)" by simp
    with run_final_reached [OF c, of j s0] j
    have "results (final_state s0 (processFile env)) ! (j - 1) = donePage env j" by simp
    then show "terminal (PageExtraction.status (results (final_state s0 (processFile env)) ! (j - 1)))"
      by (simp add: donePage_terminal)
  qed
  ultimately show ?thesis by simp
qed

text \<open>
  Claim C3. When the extraction of a page \<open>i\<close> that the loop reaches fails (the
  inner \<^verbatim>\<open>try\<close> throws), the final state holds for page \<open>i\<close> the content
  \<^verbatim>\<open>Failed to extract content.\<close> and the status error; and when no preview of a later
  page fails, the run ends with status completed and every page in a terminal
  status, whatever the number of pages whose extraction failed.
\<close>

theorem extraction_failure_is_local:
  assumes "getPageCount env = Inr N" and "1 \<le> i" and "i \<le> N"
    and "\<forall>j. 1 \<le> j \<and> j \<le> i \<longrightarrow> \<not> isl (getPageAsDataUrl env j)"
    and "isl (extractPage env i)"
  shows "pageNumber (results (final_state s0 (processFile env)) ! (i - 1)) = i
       \<and> content (results (final_state s0 (processFile env)) ! (i - 1)) = ''Failed to extract content.''
       \<and> PageExtraction.status (results (final_state s0 (processFile env)) ! (i - 1)) = PageError
       \<and> ((\<forall>j. i < j \<and> j \<le> N \<longrightarrow> \<not> isl (getPageAsDataUrl env j)) \<longrightarrow>
            status (final_state s0 (processFile env)) = Completed
            \<and> (\<forall>j. 1 \<le> j \<and> j \<le> N \<longrightarrow>
                  terminal (PageExtraction.status (results (final_state s0 (processFile env)) ! (j - 1)))))"
proof -
  have r: "results (final_state s0 (processFile env)) ! (i - 1) = donePage env i"
    using run_final_reached [OF assms(1-4), of s0] by simp
  have later: "(\<forall>j. i < j \<and> j \<le> N \<longrightarrow> \<not> isl (getPageAsDataUrl env j)) \<longrightarrow>
            status (final_state s0 (processFile env)) = Completed
            \<and> (\<forall>j. 1 \<le> j \<and> j \<le> N \<longrightarrow>
                  terminal (PageExtraction.status (results (final_state s0 (processFile env)) ! (j - 1))))"
  proof
    assume l: "\<forall>j. i < j \<and> j \<le> N \<longrightarrow> \<not> isl (getPageAsDataUrl env j)"
    have "\<forall>j. 1 \<le> j \<and> j \<le> N \<longrightarrow> \<not> isl (getPageAsDataUrl env j)"
    proof (intro allI impI)
      fix j assume "1 \<le> j \<and> j \<le> N"
      then consider "j \<le> i \<and> 1 \<le> j" | "i < j \<and> j \<le> N" by linarith
      then show "\<not> isl (getPageAsDataUrl env j)"
        using assms(4) l by cases blast+
    qed
    with assms(1) show "status (final_state s0 (processFile env)) = Completed
            \<and> (\<forall>j. 1 \<le> j \<and> j \<le> N \<longrightarrow>
                  terminal (PageExtraction.status (results (final_state s0 (processFile env)) ! (j - 1))))"
      by (rule completed_when_no_preview_fails)
  qed
  from r donePage_failed [OF assms(5)] later show ?thesis
    by simp
qed

theorem extraction_failure_is_local_witness:
  "getPageCount scenarioNoKey = Inr 2
   \<and> isl (extractPage scenarioNoKey 1) \<and> isl (extractPage scenarioNoKey 2)
   \<and> content (results (final_state initial_state (processFile scenarioNoKey)) ! 0) =
       ''Failed to extract content.''
   \<and> PageExtraction.status (results (final_state initial_state (processFile scenarioNoKey)) ! 0) = PageError
   \<and> PageExtraction.status (results (final_state initial_state (processFile scenarioNoKey)) ! 1) = PageError
   \<and> status (final_state initial_state (processFile scenarioNoKey)) = Completed"
proof -
  have c: "getPageCount scenarioNoKey = Inr 2"
    by (simp add: scenarioNoKey_def)
  have p: "\<forall>j. 1 \<le> j \<and> j \<le> 1 \<longrightarrow> \<not> isl (getPageAsDataUrl scenarioNoKey j)"
    by (simp add: scenarioNoKey_def)
  have q: "\<forall>j. 1 < j \<and> j \<le> 2 \<longrightarrow> \<not> isl (getPageAsDataUrl scenarioNoKey j)"
    by (simp add: scenarioNoKey_def)
  have e: "isl (extractPage scenarioNoKey 1)" "isl (extractPage scenarioNoKey 2)"
    by (simp_all add: scenarioNoKey_def extractPage_def extractContentFromPage_def)
  have v: "PageExtraction.status (results (final_state initial_state (processFile scenarioNoKey)) ! 1) = PageError"
    by code_simp
  from extraction_failure_is_local [OF c _ _ p e(1), of initial_state] q
  have "content (results (final_state initial_state (processFile scenarioNoKey)) ! 0) =
       ''Failed to extract content.''
   \<and> PageExtraction.status (results (final_state initial_state (processFile scenarioNoKey)) ! 0) = PageError
   \<and> status (final_state initial_state (processFile scenarioNoKey)) = Completed"
    by simp
  with c e v show ?thesis by simp
qed

text \<open>
  Claim C2, refuted as stated: in \<open>scenarioImageFails\<close> the extraction-quality
  image of page 1 cannot be rendered, yet the run ends with status completed,
  page 1 is recorded with status error and page 2 is processed.
\<close>

theorem render_failure_fatal_counterexample:
  "isl (getPageAsImage scenarioImageFails 1)
   \<and> status (final_state initial_state (processFile scenarioImageFails)) = Completed
   \<and> PageExtraction.status (results (final_state initial_state (processFile scenarioImageFails)) ! 0) = PageError
   \<and> PageExtraction.status (results (final_state initial_state (processFile scenarioImageFails)) ! 1) = PageCompleted"
  by code_simp

text \<open>
  Claim C2, amended. Let the previews of the pages before \<open>i\<close> succeed. If the
  preview of page \<open>i\<close> cannot be rendered, the run ends with status error and the
  message, and page \<open>i\<close> and every later page are still pending records: the
  failure is not a per-page error and the loop does not go on. If the preview
  succeeds and the extraction-quality image cannot be rendered, page \<open>i\<close> is
  recorded with the status error and the placeholder content, and the run ends
  with status completed when no later preview fails.
\<close>

theorem preview_failure_is_fatal:
  assumes "getPageCount env = Inr N" and "1 \<le> i" and "i \<le> N"
    and "\<forall>j. 1 \<le> j \<and> j < i \<longrightarrow> \<not> isl (getPageAsDataUrl env j)"
  shows "(isl (getPageAsDataUrl env i) \<longrightarrow>
            status (final_state s0 (processFile env)) = Error
            \<and> errorMessage (final_state s0 (processFile env)) =
                Some ''Failed to process file. Make sure it is a valid PDF.''
            \<and> (\<forall>j. i \<le> j \<and> j \<le> N \<longrightarrow>
                  results (final_state s0 (processFile env)) ! (j - 1) = pendingPage j))
       \<and> (\<not> isl (getPageAsDataUrl env i) \<and> isl (getPageAsImage env i) \<longrightarrow>
            content (results (final_state s0 (processFile env)) ! (i - 1)) = ''Failed to extract content.''
            \<and> PageExtraction.status (results (final_state s0 (processFile env)) ! (i - 1)) = PageError
            \<and> ((\<forall>j. i < j \<and> j \<le> N \<longrightarrow> \<not> isl (getPageAsDataUrl env j)) \<longrightarrow>
                  status (final_state s0 (processFile env)) = Completed))"
proof (intro conjI impI)
  assume f: "isl (getPageAsDataUrl env i)"
  have "status (final_state s0 (processFile env)) = (if i = Suc N then Completed else Error)"
    using assms(1,2) _ assms(4) by (rule run_final_at(2)) (use assms(3) f in simp_all)
  then show "status (final_state s0 (processFile env)) = Error"
    using assms(3) by simp
  have "errorMessage (final_state s0 (processFile env)) =
          (if i = Suc N then None else Some ''Failed to process file. Make sure it is a valid PDF.'')"
    using assms(1,2) _ assms(4) by (rule run_final_at(3)) (use assms(3) f in simp_all)
  then show "errorMessage (final_state s0 (processFile env)) =
                Some ''Failed to process file. Make sure it is a valid PDF.''"
    using assms(3) by simp
  show "\<forall>j. i \<le> j \<and> j \<le> N \<longrightarrow>
          results (final_state s0 (processFile env)) ! (j - 1) = pendingPage j"
    using run_final_unreached [OF assms(1-4) f, of _ s0] by blast
next
  assume h: "\<not> isl (getPageAsDataUrl env i) \<and> isl (getPageAsImage env i)"
  have ok: "\<forall>j. 1 \<le> j \<and> j \<le> i \<longrightarrow> \<not> isl (getPageAsDataUrl env j)"
  proof (intro allI impI)
    fix j assume "1 \<le> j \<and> j \<le> i"
    then consider "j = i" | "1 \<le> j \<and> j < i" by linarith
    then show "\<not> isl (getPageAsDataUrl env j)"
      using h assms(4) by cases blast+
  qed
  have e: "isl (extractPage env i)"
    using h by (simp add: image_failure_fails_extraction)
  have r: "results (final_state s0 (processFile env)) ! (i - 1) = donePage env i"
    using run_final_reached [OF assms(1-3) ok, of s0] by simp
  show "content (results (final_state s0 (processFile env)) ! (i - 1)) = ''Failed to extract content.''"
    using r donePage_failed [OF e] by simp
  show "PageExtraction.status (results (final_state s0 (processFile env)) ! (i - 1)) = PageError"
    using r donePage_failed [OF e] by simp
  assume l: "\<forall>j. i < j \<and> j \<le> N \<longrightarrow> \<not> isl (getPageAsDataUrl env j)"
  have "\<forall>j. 1 \<le> j \<and> j \<le> N \<longrightarrow> \<not> isl (getPageAsDataUrl env j)"
  proof (intro allI impI)
    fix j assume "1 \<le> j \<and> j \<le> N"
    then consider "j \<le> i \<and> 1 \<le> j" | "i < j \<and> j \<le> N" by linarith
    then show "\<not> isl (getPageAsDataUrl env j)"
      using ok l by cases blast+
  qed
  with assms(1) show "status (final_state s0 (processFile env)) = Completed"
    using completed_when_no_preview_fails by blast
qed

theorem preview_failure_is_fatal_witness:
  "isl (getPageAsDataUrl scenarioPreviewFails 2)
   \<and> status (final_state initial_state (processFile scenarioPreviewFails)) = Error
   \<and> errorMessage (final_state initial_state (processFile scenarioPreviewFails)) =
       Some ''Failed to process file. Make sure it is a valid PDF.''
   \<and> results (final_state initial_state (processFile scenarioPreviewFails)) ! 1 = pendingPage 2
   \<and> results (final_state initial_state (processFile scenarioPreviewFails)) ! 2 = pendingPage 3
   \<and> isl (getPageAsImage scenarioImageFails 1)
   \<and> PageExtraction.status (results (final_state initial_state (processFile scenarioImageFails)) ! 0) = PageError
   \<and> status (final_state initial_state (processFile scenarioImageFails)) = Completed"
proof -
  have c: "getPageCount scenarioPreviewFails = Inr 3"
    by (simp add: scenarioPreviewFails_def)
  have p: "\<forall>j. 1 \<le> j \<and> j < 2 \<longrightarrow> \<not> isl (getPageAsDataUrl scenarioPreviewFails j)"
    by (simp add: scenarioPreviewFails_def)
  have f: "isl (getPageAsDataUrl scenarioPreviewFails 2)"
    by (simp add: scenarioPreviewFails_def)
  from preview_failure_is_fatal [OF c _ _ p, of initial_state] f
  have a: "status (final_state initial_state (processFile scenarioPreviewFails)) = Error
     \<and> errorMessage (final_state initial_state (processFile scenarioPreviewFails)) =
         Some ''Failed to process file. Make sure it is a valid PDF.''
     \<and> (\<forall>j. 2 \<le> j \<and> j \<le> 3 \<longrightarrow>
           results (final_state initial_state (processFile scenarioPreviewFails)) ! (j - 1) = pendingPage j)"
    by simp
  then have al: "\<forall>j. 2 \<le> j \<and> j \<le> 3 \<longrightarrow>
           results (final_state initial_state (processFile scenarioPreviewFails)) ! (j - 1) = pendingPage j"
    by (elim conjE)
  have a2: "results (final_state initial_state (processFile scenarioPreviewFails)) ! 1 = pendingPage 2"
    using al [rule_format, of 2] by simp
  have a3: "results (final_state initial_state (processFile scenarioPreviewFails)) ! 2 = pendingPage 3"
    using al [rule_format, of 3] by simp
  have c': "getPageCount scenarioImageFails = Inr 2"
    by (simp add: scenarioImageFails_def)
  have p': "\<forall>j. 1 \<le> j \<and> j < 1 \<longrightarrow> \<not> isl (getPageAsDataUrl scenarioImageFails j)"
    by simp
  have f': "\<not> isl (getPageAsDataUrl scenarioImageFails 1) \<and> isl (getPageAsImage scenarioImageFails 1)"
    by (simp add: scenarioImageFails_def)
  have l': "\<forall>j. 1 < j \<and> j \<le> 2 \<longrightarrow> \<not> isl (getPageAsDataUrl scenarioImageFails j)"
    by (simp add: scenarioImageFails_def)
  from preview_failure_is_fatal [OF c' _ _ p', of initial_state] f' l'
  have b: "PageExtraction.status (results (final_state initial_state (processFile scenarioImageFails)) ! 0) = PageError
     \<and> status (final_state initial_state (processFile scenarioImageFails)) = Completed"
    by simp
  from f a a2 a3 f' b show ?thesis
    by simp
qed

section \<open>Extracted content\<close>

lemma or_default_nonempty: "d \<noteq> [] \<Longrightarrow> or_default t d \<noteq> []"
  by (cases t) simp_all

lemma extractContentFromPage_nonempty:
  "extractContentFromPage k g img = Inr t \<Longrightarrow> t \<noteq> []"
  by (auto simp: extractContentFromPage_def or_default_nonempty split: if_splits sum.splits)

lemma extractPage_nonempty: "extractPage env i = Inr t \<Longrightarrow> t \<noteq> []"
  by (auto simp: extractPage_def extractContentFromPage_nonempty split: sum.splits)

lemma join_contains:
  "x \<in> set xs \<Longrightarrow> \<exists>pre post. join sep xs = pre @ x @ post"
proof (induction sep xs rule: join.induct)
  case (1 sep)
  then show ?case by simp
next
  case (2 sep y)
  then have "join sep [y] = [] @ x @ []" by simp
  then show ?case by blast
next
  case (3 sep y z zs)
  show ?case
  proof (cases "x = y")
    case True
    then have "join sep (y # z # zs) = [] @ x @ (sep @ join sep (z # zs))" by simp
    then show ?thesis by blast
  next
    case False
    with "3.prems" have "x \<in> set (z # zs)" by simp
    from "3.IH" [OF this] obtain pre post where "join sep (z # zs) = pre @ x @ post"
      by blast
    then have "join sep (y # z # zs) = (y @ sep @ pre) @ x @ post" by simp
    then show ?thesis by blast
  qed
qed

lemma final_completed_nonempty:
  assumes c: "getPageCount env = Inr N"
  shows "list_all (\<lambda>r. PageExtraction.status r \<noteq> PageCompleted \<or> content r \<noteq> [])
           (results (final_state s0 (processFile env)))"
proof -
  from run_final [OF c, of s0] obtain f where
    r: "results (final_state s0 (processFile env)) =
               map (donePage env) [1..<f] @ map pendingPage [f..<Suc N]"
    by blast
  have "PageExtraction.status (donePage env j) \<noteq> PageCompleted \<or> content (donePage env j) \<noteq> []" for j
    by (cases "extractPage env j") (simp_all add: donePage_def extractPage_nonempty)
  moreover have "PageExtraction.status (pendingPage j) \<noteq> PageCompleted" for j
    by (simp add: pendingPage_def)
  ultimately show ?thesis
    unfolding r by (auto simp: list_all_iff simp del: upt_Suc)
qed

text \<open>
  Claim C10. Let the loop reach page \<open>i\<close>, its image be rendered, an API key be
  present and the backend call succeed with a response whose text is \<open>text\<close>
  (a string or undefined). Then \<^verbatim>\<open>extractContentFromPage\<close> returns the text, or the
  literal \<^verbatim>\<open>No content extracted.\<close> when the text is undefined or empty; the
  content stored for page \<open>i\<close> is that string and is not empty, the page is
  completed, it is one of the completed pages whose contents the transcript
  joins, and its content occurs in the transcript. No completed page of the
  final state has empty content.
\<close>

theorem extracted_content_never_empty:
  assumes "getPageCount env = Inr N" and "1 \<le> i" and "i \<le> N"
    and "\<forall>j. 1 \<le> j \<and> j \<le> i \<longrightarrow> \<not> isl (getPageAsDataUrl env j)"
    and "getPageAsImage env i = Inr img"
    and "API_KEY env = Some k" and "k \<noteq> []"
    and "generateContent env i img = Inr text"
  shows "extractContentFromPage (API_KEY env) (generateContent env i) img =
           Inr (if text = None \<or> text = Some [] then ''No content extracted.'' else the text)
       \<and> content (results (final_state s0 (processFile env)) ! (i - 1)) =
           (if text = None \<or> text = Some [] then ''No content extracted.'' else the text)
       \<and> content (results (final_state s0 (processFile env)) ! (i - 1)) \<noteq> []
       \<and> PageExtraction.status (results (final_state s0 (processFile env)) ! (i - 1)) = PageCompleted
       \<and> results (final_state s0 (processFile env)) ! (i - 1) \<in>
           set (filter (\<lambda>r. PageExtraction.status r = PageCompleted)
                  (results (final_state s0 (processFile env))))
       \<and> (\<exists>pre post. combinedContent (final_state s0 (processFile env)) =
             pre @ content (results (final_state s0 (processFile env)) ! (i - 1)) @ post)
       \<and> list_all (\<lambda>r. PageExtraction.status r \<noteq> PageCompleted \<or> content r \<noteq> [])
           (results (final_state s0 (processFile env)))"
proof -
  define t where "t = (if text = None \<or> text = Some [] then ''No content extracted.'' else the text)"
  define F where "F = final_state s0 (processFile env)"
  have od: "or_default text ''No content extracted.'' = t"
    by (cases "text") (simp_all add: t_def)
  have ex: "extractContentFromPage (API_KEY env) (generateContent env i) img = Inr t"
    using assms(6,7,8) od by (simp add: extractContentFromPage_def)
  then have ep: "extractPage env i = Inr t"
    using assms(5) by (simp add: extractPage_def)
  have r: "i - 1 < length (results F)" "results F ! (i - 1) = donePage env i"
    unfolding F_def using run_final_reached [OF assms(1-4), of s0] by simp_all
  have ct: "content (results F ! (i - 1)) = t"
    and st: "PageExtraction.status (results F ! (i - 1)) = PageCompleted"
    using r(2) donePage_extracted [OF ep] by simp_all
  have ne: "content (results F ! (i - 1)) \<noteq> []"
    using ct extractPage_nonempty [OF ep] by simp
  have mem: "results F ! (i - 1) \<in> set (filter (\<lambda>r. PageExtraction.status r = PageCompleted) (results F))"
    using r(1) st by simp
  then have "content (results F ! (i - 1)) \<in>
               content ` set (filter (\<lambda>r. PageExtraction.status r = PageCompleted) (results F))"
    by (rule imageI)
  then have "content (results F ! (i - 1)) \<in>
               set (map content (filter (\<lambda>r. PageExtraction.status r = PageCompleted) (results F)))"
    by (simp only: set_map)
  then have occ: "\<exists>pre post. combinedContent F = pre @ content (results F ! (i - 1)) @ post"
    unfolding combinedContent_def by (rule join_contains)
  have all: "list_all (\<lambda>r. PageExtraction.status r \<noteq> PageCompleted \<or> content r \<noteq> []) (results F)"
    unfolding F_def using assms(1) by (rule final_completed_nonempty)
  from ex ct ne st mem occ all show ?thesis
    unfolding t_def F_def by (intro conjI)
qed

theorem extracted_content_never_empty_witness:
  "getPageCount scenarioNoText = Inr 1
   \<and> generateContent scenarioNoText 1 ''AA'' = Inr None
   \<and> extractContentFromPage (API_KEY scenarioNoText) (generateContent scenarioNoText 1) ''AA'' =
       Inr ''No content extracted.''
   \<and> content (results (final_state initial_state (processFile scenarioNoText)) ! 0) =
       ''No content extracted.''
   \<and> PageExtraction.status (results (final_state initial_state (processFile scenarioNoText)) ! 0) =
       PageCompleted
   \<and> combinedContent (final_state initial_state (processFile scenarioNoText)) =
       ''No content extracted.''"
proof -
  have c: "getPageCount scenarioNoText = Inr 1"
    by (simp add: scenarioNoText_def)
  have p: "\<forall>j. 1 \<le> j \<and> j \<le> 1 \<longrightarrow> \<not> isl (getPageAsDataUrl scenarioNoText j)"
    by (simp add: scenarioNoText_def)
  have g: "getPageAsImage scenarioNoText 1 = Inr ''AA''"
    by (simp add: scenarioNoText_def)
  have k: "API_KEY scenarioNoText = Some ''key''" "''key'' \<noteq> []"
    by (simp_all add: scenarioNoText_def)
  have b: "generateContent scenarioNoText 1 ''AA'' = Inr None"
    by (simp add: scenarioNoText_def)
  have v: "combinedContent (final_state initial_state (processFile scenarioNoText)) =
       ''No content extracted.''"
    by code_simp
  from extracted_content_never_empty [OF c _ _ p g k b, of initial_state]
  have "extractContentFromPage (API_KEY scenarioNoText) (generateContent scenarioNoText 1) ''AA'' =
       Inr ''No content extracted.''
   \<and> content (results (final_state initial_state (processFile scenarioNoText)) ! 0) =
       ''No content extracted.''
   \<and> PageExtraction.status (results (final_state initial_state (processFile scenarioNoText)) ! 0) =
       PageCompleted"
    by simp
  with c b v show ?thesis by simp
qed

section \<open>The combined transcript\<close>

lemma map_pageNumber_map:
  "(\<And>r. pageNumber (f r) = pageNumber r) \<Longrightarrow> map pageNumber (map f xs) = map pageNumber xs"
  by (induction xs) simp_all

lemma pageNumbers_kept:
  "loop_update u \<Longrightarrow> map pageNumber (results (apply_update u s)) = map pageNumber (results s)"
  by (cases u) (simp_all add: map_pageNumber_map del: map_map)

lemma pageNumbers_allocated:
  "map pageNumber (results (apply_update (Allocate count) s)) = [1..<Suc count]"
proof -
  have "map pageNumber (map (\<lambda>i. pendingPage (i + 1)) [0..<count]) = map Suc [0..<count]"
    by (simp add: pendingPage_def)
  then show ?thesis
    by (simp add: map_Suc_upt del: upt_Suc map_map)
qed

lemma pageNumbers_apply_update:
  assumes "map pageNumber (results s) = [1..<Suc (totalPages s)]"
  shows "map pageNumber (results (apply_update u s)) = [1..<Suc (totalPages (apply_update u s))]"
proof (cases "loop_update u")
  case True
  then have "totalPages (apply_update u s) = totalPages s"
    by (cases u) simp_all
  with True assms show ?thesis by (simp only: pageNumbers_kept)
next
  case False
  then consider "u = SetLoading" | count where "u = Allocate count" | "u = Reset"
    by (cases u) simp_all
  then show ?thesis
  proof cases
    case 1
    with assms show ?thesis by simp
  next
    case 2
    have "totalPages (apply_update (Allocate count) s) = count" by simp
    with 2 show ?thesis by (simp only: pageNumbers_allocated)
  next
    case 3
    then show ?thesis by (simp add: initial_state_def)
  qed
qed

lemma pageNumbers_published:
  "map pageNumber (results s) = [1..<Suc (totalPages s)] \<Longrightarrow>
   list_all (\<lambda>t. map pageNumber (results t) = [1..<Suc (totalPages t)]) (published s us)"
proof (induction us arbitrary: s)
  case Nil
  then show ?case by simp
next
  case (Cons u us)
  from Cons.prems have "map pageNumber (results (apply_update u s)) =
                          [1..<Suc (totalPages (apply_update u s))]"
    by (rule pageNumbers_apply_update)
  with Cons.IH show ?case by simp
qed

lemma join_concat:
  "join sep xs = (case xs of [] \<Rightarrow> [] | c # cs \<Rightarrow> c @ concat (map (\<lambda>x. sep @ x) cs))"
  by (induction sep xs rule: join.induct) simp_all

lemma pages_by_number:
  "map f xs = ks \<Longrightarrow> distinct ks \<Longrightarrow>
   concat (map (\<lambda>k. filter (\<lambda>r. f r = k \<and> P r) xs) ks) = filter P xs"
proof (induction xs arbitrary: ks)
  case Nil
  then show ?case by simp
next
  case (Cons x xs)
  from Cons.prems obtain ks' where ks: "ks = f x # ks'" and m: "map f xs = ks'"
    and d: "distinct ks'" and n: "f x \<notin> set ks'"
    by auto
  have "\<forall>r \<in> set xs. f r \<noteq> f x"
  proof
    fix r assume "r \<in> set xs"
    then have "f r \<in> set (map f xs)" by simp
    then have "f r \<in> set ks'" by (simp only: m)
    with n show "f r \<noteq> f x" by metis
  qed
  then have no: "filter (\<lambda>r. f r = f x \<and> P r) xs = []"
    by (simp add: filter_empty_conv)
  have "map (\<lambda>k. filter (\<lambda>r. f r = k \<and> P r) (x # xs)) ks' =
        map (\<lambda>k. filter (\<lambda>r. f r = k \<and> P r) xs) ks'"
    using n by (intro map_cong) auto
  then have "concat (map (\<lambda>k. filter (\<lambda>r. f r = k \<and> P r) (x # xs)) ks') =
             concat (map (\<lambda>k. filter (\<lambda>r. f r = k \<and> P r) xs) ks')"
    by (rule arg_cong)
  also have "\<dots> = filter P xs"
    using m d by (rule Cons.IH)
  finally have rest: "concat (map (\<lambda>k. filter (\<lambda>r. f r = k \<and> P r) (x # xs)) ks') = filter P xs" .
  have first: "filter (\<lambda>r. f r = f x \<and> P r) (x # xs) = (if P x then [x] else [])"
    using no by simp
  have "concat (map (\<lambda>k. filter (\<lambda>r. f r = k \<and> P r) (x # xs)) (f x # ks')) =
        filter (\<lambda>r. f r = f x \<and> P r) (x # xs) @
        concat (map (\<lambda>k. filter (\<lambda>r. f r = k \<and> P r) (x # xs)) ks')"
    by (simp only: list.map concat.simps)
  also have "\<dots> = (if P x then [x] else []) @ filter P xs"
    by (simp only: first rest)
  also have "\<dots> = filter P (x # xs)"
    by simp
  finally show ?case
    by (simp only: ks)
qed

lemma transcript_spec_numbered:
  assumes "map pageNumber (results s) = [1..<Suc (totalPages s)]"
  shows "combinedContent s = transcript_spec s"
proof -
  have "concat (map (\<lambda>n. filter (\<lambda>r. pageNumber r = n \<and> PageExtraction.status r = PageCompleted)
                           (results s)) [1..<Suc (totalPages s)]) =
        filter (\<lambda>r. PageExtraction.status r = PageCompleted) (results s)"
    using assms by (rule pages_by_number) simp
  then have "map content
          (concat (map (\<lambda>n. filter (\<lambda>r. pageNumber r = n \<and> PageExtraction.status r = PageCompleted)
                           (results s)) [1..<Suc (totalPages s)])) =
        map content (filter (\<lambda>r. PageExtraction.status r = PageCompleted) (results s))"
    by (rule arg_cong)
  then have "concat (map (\<lambda>n. map content
                         (filter (\<lambda>r. pageNumber r = n \<and> PageExtraction.status r = PageCompleted)
                            (results s))) [1..<Suc (totalPages s)]) =
        map content (filter (\<lambda>r. PageExtraction.status r = PageCompleted) (results s))"
    by (simp add: map_concat comp_def del: upt_Suc)
  then show ?thesis
    by (simp only: combinedContent_def transcript_spec_def join_concat)
qed

lemma other_contents_ignored:
  "filter (\<lambda>r. PageExtraction.status r = PageCompleted)
     (map (\<lambda>r. if PageExtraction.status r = PageCompleted then r else r\<lparr>content := c\<rparr>) xs) =
   filter (\<lambda>r. PageExtraction.status r = PageCompleted) xs"
  by (induction xs) simp_all

text \<open>
  Claim C4. In every state the component can be in (the initial state followed by
  any sequence of its updates, of one run or of several, resets included) the
  combined transcript is the transcript of the specification: the contents of
  exactly the completed pages, in page-number order, each but the first
  preceded by a blank line. Pages that are not completed, those in error among
  them, contribute nothing: whatever their content is replaced by (the
  placeholder of a failed page as well), the transcript is the same. In
  Scenario B the transcript is the text of page 1, a blank line, the text of
  page 3.
\<close>

theorem combined_transcript_in_page_order:
  "list_all
     (\<lambda>s. combinedContent s = transcript_spec s
        \<and> (\<forall>c. combinedContent
                  (s\<lparr>results := map (\<lambda>r. if PageExtraction.status r = PageCompleted then r
                                          else r\<lparr>content := c\<rparr>) (results s)\<rparr>)
                = combinedContent s))
     (initial_state # published initial_state us)
   \<and> combinedContent (final_state initial_state (processFile scenarioB)) =
       ''page one'' @ [CHR 0x0A, CHR 0x0A] @ ''page three''"
proof -
  have i: "map pageNumber (results initial_state) = [1..<Suc (totalPages initial_state)]"
    by (simp add: initial_state_def)
  then have "list_all (\<lambda>t. map pageNumber (results t) = [1..<Suc (totalPages t)])
               (initial_state # published initial_state us)"
    using pageNumbers_published [OF i, of us] by simp
  then have "list_all (\<lambda>s. combinedContent s = transcript_spec s)
               (initial_state # published initial_state us)"
    unfolding list_all_iff using transcript_spec_numbered by blast
  moreover have "\<forall>c. combinedContent
                  (s\<lparr>results := map (\<lambda>r. if PageExtraction.status r = PageCompleted then r
                                          else r\<lparr>content := c\<rparr>) (results s)\<rparr>)
                = combinedContent s" for s
    by (simp add: combinedContent_def other_contents_ignored)
  ultimately have "list_all
     (\<lambda>s. combinedContent s = transcript_spec s
        \<and> (\<forall>c. combinedContent
                  (s\<lparr>results := map (\<lambda>r. if PageExtraction.status r = PageCompleted then r
                                          else r\<lparr>content := c\<rparr>) (results s)\<rparr>)
                = combinedContent s))
     (initial_state # published initial_state us)"
    unfolding list_all_iff by blast
  moreover have "combinedContent (final_state initial_state (processFile scenarioB)) =
       ''page one'' @ [CHR 0x0A, CHR 0x0A] @ ''page three''"
    by code_simp
  ultimately show ?thesis by (rule conjI)
qed

section \<open>Reset during a run\<close>












section \<open>The evaluation call\<close>

lemma JSON_parse_empty: "JSON_parse [] = None"
  by (simp add: JSON_parse_def)

lemma example_report_parsed: "JSON_parse example_report_text = Some example_report"
  by code_simp

lemma example_report_well_formed: "is_EvaluationReport example_report"
  by code_simp

text \<open>
  Claim C5, refuted as stated: when the backend's response carries no text,
  \<^verbatim>\<open>processAndEvaluate\<close> parses \<^verbatim>\<open>{}\<close> and returns the empty object, which has
  none of the properties of an \<^verbatim>\<open>EvaluationReport\<close>; and a valid JSON text of
  another shape, here an empty array, is returned as it is.
\<close>

theorem evaluate_untyped_result_counterexample:
  "processAndEvaluate (Inr None) = Inr (JObject [])
   \<and> \<not> is_EvaluationReport (JObject [])
   \<and> processAndEvaluate (Inr (Some ''[]'')) = Inr (JArray [])
   \<and> \<not> is_EvaluationReport (JArray [])"
  by code_simp

text \<open>
  Claim C5, amended. \<^verbatim>\<open>processAndEvaluate\<close> returns exactly the value that
  \<^verbatim>\<open>JSON.parse\<close> gives for the response text (for \<^verbatim>\<open>{}\<close> when the response has no
  text), unchanged and unchecked: the typed report, its items in the order of
  the text, when the text is the JSON of one. It fails with the backend's own
  exception, unwrapped, when the call fails, and with the error
  \<^verbatim>\<open>Failed to process evaluation report.\<close> exactly when the text is not JSON.
\<close>

theorem evaluate_passes_response_through:
  "processAndEvaluate (Inl e) = Inl e
   \<and> (processAndEvaluate r = Inr v \<longleftrightarrow>
        (\<exists>text. r = Inr text
           \<and> JSON_parse (if text = None \<or> text = Some [] then ''{}'' else the text) = Some v))
   \<and> (processAndEvaluate r = Inl e \<longleftrightarrow>
        r = Inl e
        \<or> (\<exists>text. r = Inr text
              \<and> JSON_parse (if text = None \<or> text = Some [] then ''{}'' else the text) = None
              \<and> e = Exn ''Failed to process evaluation report.''))
   \<and> (JSON_parse t = Some w \<and> is_EvaluationReport w \<longrightarrow> processAndEvaluate (Inr (Some t)) = Inr w)"
proof -
  have od: "or_default x ''{}'' = (if x = None \<or> x = Some [] then ''{}'' else the x)"
    for x :: "string option"
    by (cases x) simp_all
  have a: "processAndEvaluate (Inl e) = Inl e"
    by (simp add: processAndEvaluate_def)
  have b: "processAndEvaluate r = Inr v \<longleftrightarrow>
        (\<exists>text. r = Inr text
           \<and> JSON_parse (if text = None \<or> text = Some [] then ''{}'' else the text) = Some v)"
    by (cases r) (auto simp: processAndEvaluate_def od split: option.splits)
  have c: "processAndEvaluate r = Inl e \<longleftrightarrow>
        r = Inl e
        \<or> (\<exists>text. r = Inr text
              \<and> JSON_parse (if text = None \<or> text = Some [] then ''{}'' else the text) = None
              \<and> e = Exn ''Failed to process evaluation report.'')"
    by (cases r) (auto simp: processAndEvaluate_def od split: option.splits)
  have d: "JSON_parse t = Some w \<and> is_EvaluationReport w \<longrightarrow> processAndEvaluate (Inr (Some t)) = Inr w"
  proof
    assume h: "JSON_parse t = Some w \<and> is_EvaluationReport w"
    then have "t \<noteq> []" using JSON_parse_empty by auto
    with h show "processAndEvaluate (Inr (Some t)) = Inr w"
      by (simp add: processAndEvaluate_def)
  qed
  from a b c d show ?thesis by (intro conjI)
qed

theorem evaluate_passes_response_through_witness:
  "JSON_parse example_report_text = Some example_report
   \<and> is_EvaluationReport example_report
   \<and> processAndEvaluate (Inr (Some example_report_text)) = Inr example_report
   \<and> processAndEvaluate (Inl (Exn ''503 Service Unavailable'')) = Inl (Exn ''503 Service Unavailable'')"
proof -
  note th = evaluate_passes_response_through
    [of "Exn ''503 Service Unavailable''" "Inr (Some example_report_text)" example_report
        example_report_text example_report]
  have h: "JSON_parse example_report_text = Some example_report \<and> is_EvaluationReport example_report"
    using example_report_parsed example_report_well_formed by (rule conjI)
  from th have "JSON_parse example_report_text = Some example_report \<and> is_EvaluationReport example_report
      \<longrightarrow> processAndEvaluate (Inr (Some example_report_text)) = Inr example_report"
    by (elim conjE)
  with h have r: "processAndEvaluate (Inr (Some example_report_text)) = Inr example_report"
    by (rule rev_mp)
  from th have f: "processAndEvaluate (Inl (Exn ''503 Service Unavailable'')) = Inl (Exn ''503 Service Unavailable'')"
    by (elim conjE)
  from h r f show ?thesis by simp
qed

end
